theory Spec2Isabelle
  imports Complex_Main
begin

section \<open>Python numbers\<close>

text \<open>
  The cost calculator (scripts/pre-deployment/cost-calculator.py) computes with Python
  \<open>int\<close> (unbounded, modelled as \<open>int\<close>) and Python \<open>float\<close> (IEEE 754
  binary64). A float is modelled by its exact rational value, or one of the three
  special values; every arithmetic operation computes the exact rational result and
  rounds it to the nearest binary64 value, ties to even, as the hardware does. The sign
  of zero is not represented (it is visible in no operation the calculator performs).
\<close>

datatype pyfloat = Finite rat | PInf | NInf | NaN

datatype pyerror = OverflowError | ZeroDivisionError | ValueError

fun map_err :: "('a \<Rightarrow> 'e + 'b) \<Rightarrow> 'a list \<Rightarrow> 'e + 'b list" where
  "map_err f [] = Inr []"
| "map_err f (x # xs) =
     (case f x of Inl err \<Rightarrow> Inl err
      | Inr y \<Rightarrow> (case map_err f xs of Inl err \<Rightarrow> Inl err | Inr ys \<Rightarrow> Inr (y # ys)))"

subsection \<open>Rounding to binary64\<close>

text \<open>\<open>bitlen x\<close> is the number of binary digits of a positive integer.\<close>

function bitlen :: "int \<Rightarrow> int" where
  "bitlen x = (if 0 < x then bitlen (x div 2) + 1 else 0)"
  by pat_completeness auto
termination
  by (relation "measure nat") auto

declare bitlen.simps [simp del]

definition pow2 :: "int \<Rightarrow> rat" where
  "pow2 e = (if 0 \<le> e then of_int (2 ^ nat e) else 1 / of_int (2 ^ nat (- e)))"

text \<open>For \<open>q > 0\<close>, \<open>ilog2 q\<close> is the exponent \<open>e\<close> with \<open>2^e \<le> q < 2^(e+1)\<close>.\<close>

definition ilog2 :: "rat \<Rightarrow> int" where
  "ilog2 q = (let (a, b) = quotient_of q; d = bitlen a - bitlen b
              in if pow2 d \<le> q then d else d - 1)"

definition round_half_even :: "rat \<Rightarrow> int" where
  "round_half_even x = (let f = \<lfloor>x\<rfloor>; d = x - of_int f in
     if d < 1 / 2 then f else if 1 / 2 < d then f + 1 else if even f then f else f + 1)"

text \<open>
  \<open>rne q\<close> rounds to a multiple of \<open>2^(qexp q)\<close>, the unit in the last place:
  53 significant bits, or a multiple of \<open>2^-1074\<close> in the subnormal range;
  \<open>fl\<close> adds the overflow to infinity.
\<close>

definition qexp :: "rat \<Rightarrow> int" where
  "qexp q = max (ilog2 \<bar>q\<bar> - 52) (- 1074)"

definition rne :: "rat \<Rightarrow> rat" where
  "rne q = (if q = 0 then 0 else
     let u = pow2 (qexp q) in of_int (round_half_even (q / u)) * u)"

definition fl :: "rat \<Rightarrow> pyfloat" where
  "fl q = (let r = rne q in
     if pow2 1024 \<le> r then PInf else if r \<le> - pow2 1024 then NInf else Finite r)"

subsection \<open>Float arithmetic\<close>

fun fsign :: "pyfloat \<Rightarrow> int" where
  "fsign (Finite a) = (if 0 < a then 1 else if a < 0 then - 1 else 0)"
| "fsign PInf = 1"
| "fsign NInf = - 1"
| "fsign NaN = 0"

fun fneg :: "pyfloat \<Rightarrow> pyfloat" where
  "fneg (Finite a) = Finite (- a)"
| "fneg PInf = NInf"
| "fneg NInf = PInf"
| "fneg NaN = NaN"

fun fadd :: "pyfloat \<Rightarrow> pyfloat \<Rightarrow> pyfloat" where
  "fadd (Finite a) (Finite b) = fl (a + b)"
| "fadd NaN y = NaN"
| "fadd x NaN = NaN"
| "fadd PInf NInf = NaN"
| "fadd NInf PInf = NaN"
| "fadd PInf y = PInf"
| "fadd NInf y = NInf"
| "fadd x PInf = PInf"
| "fadd x NInf = NInf"

definition fsub :: "pyfloat \<Rightarrow> pyfloat \<Rightarrow> pyfloat" where
  "fsub x y = fadd x (fneg y)"

definition inf_of_sign :: "int \<Rightarrow> pyfloat" where
  "inf_of_sign s = (if s = 0 then NaN else if 0 < s then PInf else NInf)"

fun fmul :: "pyfloat \<Rightarrow> pyfloat \<Rightarrow> pyfloat" where
  "fmul (Finite a) (Finite b) = fl (a * b)"
| "fmul NaN y = NaN"
| "fmul x NaN = NaN"
| "fmul x y = inf_of_sign (fsign x * fsign y)"

text \<open>Float division raises \<open>ZeroDivisionError\<close> exactly when the divisor is zero.\<close>

fun fdiv :: "pyfloat \<Rightarrow> pyfloat \<Rightarrow> pyerror + pyfloat" where
  "fdiv x (Finite b) =
     (if b = 0 then Inl ZeroDivisionError
      else case x of Finite a \<Rightarrow> Inr (fl (a / b))
         | NaN \<Rightarrow> Inr NaN
         | _ \<Rightarrow> Inr (inf_of_sign (fsign x * fsign (Finite b))))"
| "fdiv x NaN = Inr NaN"
| "fdiv (Finite a) y = Inr (Finite 0)"
| "fdiv x y = Inr NaN"

text \<open>
  An \<open>int\<close> operand of a float operation is converted first; the conversion raises
  \<open>OverflowError\<close> when the integer is beyond the float range. True division of two
  integers is correctly rounded and raises in the same way.
\<close>

definition float_of_int :: "int \<Rightarrow> pyerror + pyfloat" where
  "float_of_int i = (case fl (of_int i) of Finite r \<Rightarrow> Inr (Finite r) | _ \<Rightarrow> Inl OverflowError)"

definition int_truediv :: "int \<Rightarrow> int \<Rightarrow> pyerror + pyfloat" where
  "int_truediv a b =
     (if b = 0 then Inl ZeroDivisionError
      else case fl (of_int a / of_int b) of Finite r \<Rightarrow> Inr (Finite r) | _ \<Rightarrow> Inl OverflowError)"

text \<open>\<open>int(x)\<close> truncates towards zero.\<close>

fun int_of_float :: "pyfloat \<Rightarrow> pyerror + int" where
  "int_of_float (Finite a) = Inr (if 0 \<le> a then \<lfloor>a\<rfloor> else \<lceil>a\<rceil>)"
| "int_of_float NaN = Inl ValueError"
| "int_of_float x = Inl OverflowError"

text \<open>Comparison of a float with an integer literal is exact.\<close>

fun fgt_int :: "pyfloat \<Rightarrow> int \<Rightarrow> bool" where
  "fgt_int (Finite a) i = (of_int i < a)"
| "fgt_int PInf i = True"
| "fgt_int x i = False"

fun fle :: "pyfloat \<Rightarrow> pyfloat \<Rightarrow> bool" where
  "fle (Finite a) (Finite b) = (a \<le> b)"
| "fle NaN y = False"
| "fle x NaN = False"
| "fle NInf y = True"
| "fle x PInf = True"
| "fle x y = False"

definition flt :: "pyfloat \<Rightarrow> pyfloat \<Rightarrow> bool" where
  "flt x y = (fle x y \<and> x \<noteq> y)"

text \<open>
  The builtin \<open>sum\<close> adds the items from left to right, starting from the integer 0.
\<close>

definition py_sum :: "pyfloat list \<Rightarrow> pyfloat" where
  "py_sum xs = foldl fadd (Finite 0) xs"

text \<open>
  \<open>round(x, n)\<close> rounds the exact value of \<open>x\<close> to \<open>n\<close> decimals, ties to even,
  and returns the nearest float; infinities and NaN round to themselves.
\<close>

fun py_round :: "pyfloat \<Rightarrow> nat \<Rightarrow> pyfloat" where
  "py_round (Finite a) n = fl (of_int (round_half_even (a * of_int (10 ^ n))) / of_int (10 ^ n))"
| "py_round x n = x"

subsection \<open>String formatting\<close>

function dec_digits :: "int \<Rightarrow> string" where
  "dec_digits n = (if n < 10 then [''0123456789'' ! nat n]
                   else dec_digits (n div 10) @ [''0123456789'' ! nat (n mod 10)])"
  by pat_completeness auto
termination
  by (relation "measure nat") auto

declare dec_digits.simps [simp del]

definition str_int :: "int \<Rightarrow> string" where
  "str_int n = (if n < 0 then ''-'' @ dec_digits (- n) else dec_digits n)"

fun commas_rev :: "string \<Rightarrow> string" where
  "commas_rev (a # b # c # d # xs) = a # b # c # CHR '','' # commas_rev (d # xs)"
| "commas_rev xs = xs"

definition add_commas :: "string \<Rightarrow> string" where
  "add_commas s = rev (commas_rev (rev s))"

text \<open>The format \<open>{n:,}\<close> of an integer.\<close>

definition fmt_int_comma :: "int \<Rightarrow> string" where
  "fmt_int_comma n = (if n < 0 then ''-'' @ add_commas (dec_digits (- n)) else add_commas (dec_digits n))"

text \<open>The formats \<open>{x:.0f}\<close> and \<open>{x:,.0f}\<close> of a float.\<close>

fun fmt_f0_with :: "(string \<Rightarrow> string) \<Rightarrow> pyfloat \<Rightarrow> string" where
  "fmt_f0_with g (Finite a) =
     (if a < 0 then ''-'' @ g (dec_digits (round_half_even (- a))) else g (dec_digits (round_half_even a)))"
| "fmt_f0_with g PInf = ''inf''"
| "fmt_f0_with g NInf = ''-inf''"
| "fmt_f0_with g NaN = ''nan''"

definition fmt_f0 :: "pyfloat \<Rightarrow> string" where
  "fmt_f0 x = fmt_f0_with (\<lambda>s. s) x"

definition fmt_f0_comma :: "pyfloat \<Rightarrow> string" where
  "fmt_f0_comma x = fmt_f0_with add_commas x"

text \<open>The same formats applied to an integer convert it to a float first.\<close>

definition fmt_int_f0 :: "int \<Rightarrow> pyerror + string" where
  "fmt_int_f0 n = (case float_of_int n of Inl err \<Rightarrow> Inl err | Inr x \<Rightarrow> Inr (fmt_f0 x))"

definition fmt_int_f0_comma :: "int \<Rightarrow> pyerror + string" where
  "fmt_int_f0_comma n = (case float_of_int n of Inl err \<Rightarrow> Inl err | Inr x \<Rightarrow> Inr (fmt_f0_comma x))"

fun join_comma :: "string list \<Rightarrow> string" where
  "join_comma [] = []"
| "join_comma [s] = s"
| "join_comma (s # t # ss) = s @ '', '' @ join_comma (t # ss)"

section \<open>Data model\<close>

record OrganizationProfile =
  name :: string
  accounts_count :: int
  employees :: int
  regions :: "string list"
  compliance_requirements :: "string list"
  expected_data_gb_monthly :: int
  business_hours_only :: bool
  development_accounts_ratio :: pyfloat

record ServiceCost =
  service_name :: string
  monthly_cost :: pyfloat
  annual_cost :: pyfloat
  cost_drivers :: "string list"
  optimization_potential :: pyfloat
  cost_tier :: string

text \<open>A float literal of the source denotes the nearest binary64 value.\<close>

definition CONTROL_TOWER_BASE :: pyfloat where
  "CONTROL_TOWER_BASE = fl (8910 / 100)"

definition GUARDDUTY_BASE_PER_ACCOUNT :: pyfloat where
  "GUARDDUTY_BASE_PER_ACCOUNT = fl (1560 / 100)"

definition GUARDDUTY_CLOUDTRAIL_PER_100K_EVENTS :: pyfloat where
  "GUARDDUTY_CLOUDTRAIL_PER_100K_EVENTS = fl (10 / 100)"

definition GUARDDUTY_DNS_PER_GB :: pyfloat where
  "GUARDDUTY_DNS_PER_GB = fl (50 / 100)"

definition CONFIG_ITEM_PRICE :: pyfloat where
  "CONFIG_ITEM_PRICE = fl (3 / 1000)"

definition CONFIG_RULE_EVALUATION_PRICE :: pyfloat where
  "CONFIG_RULE_EVALUATION_PRICE = fl (1 / 1000)"

definition TGW_ATTACHMENT_HOURLY :: pyfloat where
  "TGW_ATTACHMENT_HOURLY = fl (5 / 100)"

definition TGW_DATA_PROCESSING_PER_GB :: pyfloat where
  "TGW_DATA_PROCESSING_PER_GB = fl (2 / 100)"

definition CLOUDTRAIL_DATA_EVENTS_PER_100K :: pyfloat where
  "CLOUDTRAIL_DATA_EVENTS_PER_100K = fl (10 / 100)"

definition CLOUDTRAIL_INSIGHTS_PER_100K :: pyfloat where
  "CLOUDTRAIL_INSIGHTS_PER_100K = fl (35 / 100)"

definition CLOUDTRAIL_TYPICAL_MONTHLY :: pyfloat where
  "CLOUDTRAIL_TYPICAL_MONTHLY = fl (6750 / 100)"

definition CLOUDWATCH_LOG_INGESTION_PER_GB :: pyfloat where
  "CLOUDWATCH_LOG_INGESTION_PER_GB = fl (50 / 100)"

definition CLOUDWATCH_LOG_STORAGE_PER_GB_MONTH :: pyfloat where
  "CLOUDWATCH_LOG_STORAGE_PER_GB_MONTH = fl (3 / 100)"

definition CLOUDWATCH_TYPICAL_PER_ACCOUNT :: pyfloat where
  "CLOUDWATCH_TYPICAL_PER_ACCOUNT = fl (789 / 100)"

definition SECURITY_HUB_FINDING_INGESTION_PER_100K :: pyfloat where
  "SECURITY_HUB_FINDING_INGESTION_PER_100K = fl (30 / 100)"

definition SECURITY_HUB_COMPLIANCE_CHECKS_PER_100K :: pyfloat where
  "SECURITY_HUB_COMPLIANCE_CHECKS_PER_100K = fl (10 / 100)"

definition AWS_BACKUP_STORAGE_PER_GB_MONTH :: pyfloat where
  "AWS_BACKUP_STORAGE_PER_GB_MONTH = fl (5 / 100)"

definition AWS_BACKUP_CROSS_REGION_COPY_PER_GB :: pyfloat where
  "AWS_BACKUP_CROSS_REGION_COPY_PER_GB = fl (2 / 100)"

section \<open>Service cost calculators\<close>

text \<open>
  Each calculator follows its method of \<open>LandingZoneCostCalculator\<close> statement by
  statement. A calculator that converts an integer of the profile to a float returns
  \<open>pyerror + ServiceCost\<close>; the integer literals 12, 720, 6 and 100 convert exactly.
\<close>

definition calculate_control_tower_costs :: "OrganizationProfile \<Rightarrow> ServiceCost" where
  "calculate_control_tower_costs p =
    (let monthly_cost = CONTROL_TOWER_BASE;
         annual_cost = fmul monthly_cost (Finite 12);
         drivers = [''Base Control Tower service for '' @ str_int (accounts_count p) @ '' accounts'',
                    ''Automated guardrails and compliance monitoring'',
                    ''Account Factory for automated provisioning'',
                    ''Service Catalog integration''];
         potential = Finite 0
     in \<lparr>service_name = ''AWS Control Tower'', monthly_cost = monthly_cost,
         annual_cost = annual_cost, cost_drivers = drivers,
         optimization_potential = potential, cost_tier = ''enterprise''\<rparr>)"

definition calculate_guardduty_costs :: "OrganizationProfile \<Rightarrow> pyerror + ServiceCost" where
  "calculate_guardduty_costs p =
    (case float_of_int (accounts_count p) of Inl err \<Rightarrow> Inl err | Inr n \<Rightarrow>
    let base_monthly = fmul GUARDDUTY_BASE_PER_ACCOUNT n;
        events_per_month = expected_data_gb_monthly p * 100
    in (case int_truediv events_per_month 100000 of Inl err \<Rightarrow> Inl err | Inr ev \<Rightarrow>
    let cloudtrail_events_cost = fmul ev GUARDDUTY_CLOUDTRAIL_PER_100K_EVENTS
    in (case float_of_int (expected_data_gb_monthly p) of Inl err \<Rightarrow> Inl err | Inr d \<Rightarrow>
    let dns_logs_cost = fmul d GUARDDUTY_DNS_PER_GB;
        monthly_cost = fadd (fadd base_monthly cloudtrail_events_cost) dns_logs_cost;
        annual_cost = fmul monthly_cost (Finite 12)
    in (case fmt_int_f0_comma events_per_month of Inl err \<Rightarrow> Inl err | Inr ev_str \<Rightarrow>
    let drivers = [''Base GuardDuty for '' @ str_int (accounts_count p) @ '' accounts'',
                   ''CloudTrail event analysis: ~'' @ ev_str @ '' events/month'',
                   ''DNS log analysis: '' @ str_int (expected_data_gb_monthly p) @ '' GB/month'',
                   ''Threat intelligence feeds and ML model inference''];
        potential = fl (20 / 100)
    in Inr \<lparr>service_name = ''Amazon GuardDuty'', monthly_cost = monthly_cost,
             annual_cost = annual_cost, cost_drivers = drivers,
             optimization_potential = potential, cost_tier = ''premium''\<rparr>))))"

definition calculate_config_costs :: "OrganizationProfile \<Rightarrow> pyerror + ServiceCost" where
  "calculate_config_costs p =
    (let config_items_per_account = 500;
         total_config_items = config_items_per_account * accounts_count p;
         rule_evaluations_per_month = accounts_count p * 50 * 4 * 30
     in (case float_of_int total_config_items of Inl err \<Rightarrow> Inl err | Inr items \<Rightarrow>
        (case float_of_int rule_evaluations_per_month of Inl err \<Rightarrow> Inl err | Inr evals \<Rightarrow>
        let monthly_cost = fadd (fmul items CONFIG_ITEM_PRICE) (fmul evals CONFIG_RULE_EVALUATION_PRICE);
            annual_cost = fmul monthly_cost (Finite 12);
            drivers = [''Configuration items: ~'' @ fmt_int_comma total_config_items @ '' items/month'',
                       ''Rule evaluations: ~'' @ fmt_int_comma rule_evaluations_per_month @ '' evaluations/month'',
                       ''Compliance monitoring across ''
                         @ str_int (int (length (compliance_requirements p))) @ '' frameworks'',
                       ''Configuration history and snapshots''];
            potential = fl (25 / 100)
        in Inr \<lparr>service_name = ''AWS Config'', monthly_cost = monthly_cost,
                 annual_cost = annual_cost, cost_drivers = drivers,
                 optimization_potential = potential, cost_tier = ''standard''\<rparr>)))"

definition calculate_transit_gateway_costs :: "OrganizationProfile \<Rightarrow> pyerror + ServiceCost" where
  "calculate_transit_gateway_costs p =
    (let attachments_per_account = 2;
         region_multiplier = int (length (regions p));
         total_attachments = accounts_count p * attachments_per_account * region_multiplier;
         hours_per_month = 24 * 30
     in (case float_of_int total_attachments of Inl err \<Rightarrow> Inl err | Inr att \<Rightarrow>
        let attachment_cost = fmul (fmul att TGW_ATTACHMENT_HOURLY) (Finite hours_per_month)
        in (case float_of_int (expected_data_gb_monthly p) of Inl err \<Rightarrow> Inl err | Inr d \<Rightarrow>
        let tgw_data_gb = fmul d (fl (7 / 10));
            data_processing_cost = fmul tgw_data_gb TGW_DATA_PROCESSING_PER_GB;
            monthly_cost = fadd attachment_cost data_processing_cost;
            annual_cost = fmul monthly_cost (Finite 12);
            drivers = [''VPC attachments: '' @ str_int total_attachments @ '' attachments across ''
                         @ str_int region_multiplier @ '' regions'',
                       ''Data processing: ~'' @ fmt_f0 tgw_data_gb @ '' GB/month @ $0.02/GB'',
                       ''Cross-AZ data transfer costs'',
                       ''Route table associations and propagations''];
            potential = fl (30 / 100)
        in Inr \<lparr>service_name = ''AWS Transit Gateway'', monthly_cost = monthly_cost,
                 annual_cost = annual_cost, cost_drivers = drivers,
                 optimization_potential = potential, cost_tier = ''standard''\<rparr>)))"

definition calculate_cloudtrail_costs :: "OrganizationProfile \<Rightarrow> pyerror + ServiceCost" where
  "calculate_cloudtrail_costs p =
    (let base_cost = CLOUDTRAIL_TYPICAL_MONTHLY;
         data_events_per_month = expected_data_gb_monthly p * 50
     in (case int_truediv data_events_per_month 100000 of Inl err \<Rightarrow> Inl err | Inr ev \<Rightarrow>
        let data_events_cost = fmul ev CLOUDTRAIL_DATA_EVENTS_PER_100K
        in (case int_truediv data_events_per_month 100000 of Inl err \<Rightarrow> Inl err | Inr ev2 \<Rightarrow>
        let insights_cost = fmul (fmul ev2 CLOUDTRAIL_INSIGHTS_PER_100K) (fl (1 / 10));
            monthly_cost = fadd (fadd base_cost data_events_cost) insights_cost;
            annual_cost = fmul monthly_cost (Finite 12)
        in (case fmt_int_f0_comma data_events_per_month of Inl err \<Rightarrow> Inl err | Inr ev_str \<Rightarrow>
        let drivers = [''Organization-wide CloudTrail with management events'',
                       ''Data events: ~'' @ ev_str @ '' events/month'',
                       ''CloudTrail Insights for anomaly detection (10% of events)'',
                       ''Cross-region log replication for DR''];
            potential = fl (15 / 100)
        in Inr \<lparr>service_name = ''AWS CloudTrail'', monthly_cost = monthly_cost,
                 annual_cost = annual_cost, cost_drivers = drivers,
                 optimization_potential = potential, cost_tier = ''standard''\<rparr>))))"

definition calculate_cloudwatch_costs :: "OrganizationProfile \<Rightarrow> pyerror + ServiceCost" where
  "calculate_cloudwatch_costs p =
    (case float_of_int (accounts_count p) of Inl err \<Rightarrow> Inl err | Inr n \<Rightarrow>
    let base_cost = fmul CLOUDWATCH_TYPICAL_PER_ACCOUNT n
    in (case float_of_int (expected_data_gb_monthly p) of Inl err \<Rightarrow> Inl err | Inr d \<Rightarrow>
    let log_ingestion_gb = fmul d (fl (3 / 10));
        ingestion_cost = fmul log_ingestion_gb CLOUDWATCH_LOG_INGESTION_PER_GB;
        avg_retention_months = 6;
        storage_cost = fmul (fmul log_ingestion_gb (Finite avg_retention_months))
                            CLOUDWATCH_LOG_STORAGE_PER_GB_MONTH;
        monthly_cost = fadd (fadd base_cost ingestion_cost) storage_cost;
        annual_cost = fmul monthly_cost (Finite 12);
        drivers = [''Log ingestion: ~'' @ fmt_f0 log_ingestion_gb @ '' GB/month across ''
                     @ str_int (accounts_count p) @ '' accounts'',
                   ''Log storage: ~'' @ fmt_f0 (fmul log_ingestion_gb (Finite avg_retention_months))
                     @ '' GB with average '' @ str_int 6 @ '' month retention'',
                   ''Custom metrics and dashboards'',
                   ''Cross-account metric sharing''];
        potential = fl (40 / 100)
    in Inr \<lparr>service_name = ''Amazon CloudWatch'', monthly_cost = monthly_cost,
             annual_cost = annual_cost, cost_drivers = drivers,
             optimization_potential = potential, cost_tier = ''standard''\<rparr>))"

definition calculate_security_hub_costs :: "OrganizationProfile \<Rightarrow> pyerror + ServiceCost" where
  "calculate_security_hub_costs p =
    (let findings_per_month = accounts_count p * 10000
     in (case int_truediv findings_per_month 100000 of Inl err \<Rightarrow> Inl err | Inr f \<Rightarrow>
        let ingestion_cost = fmul f SECURITY_HUB_FINDING_INGESTION_PER_100K;
            compliance_checks_per_month =
              accounts_count p * int (length (compliance_requirements p)) * 1000
        in (case int_truediv compliance_checks_per_month 100000 of Inl err \<Rightarrow> Inl err | Inr c \<Rightarrow>
        let compliance_cost = fmul c SECURITY_HUB_COMPLIANCE_CHECKS_PER_100K;
            monthly_cost = fadd ingestion_cost compliance_cost;
            annual_cost = fmul monthly_cost (Finite 12);
            drivers = [''Security findings ingestion: ~'' @ fmt_int_comma findings_per_month
                         @ '' findings/month'',
                       ''Compliance checks: ~'' @ fmt_int_comma compliance_checks_per_month
                         @ '' checks/month'',
                       ''Standards: '' @ join_comma (compliance_requirements p),
                       ''Cross-account security posture aggregation''];
            potential = fl (10 / 100)
        in Inr \<lparr>service_name = ''AWS Security Hub'', monthly_cost = monthly_cost,
                 annual_cost = annual_cost, cost_drivers = drivers,
                 optimization_potential = potential, cost_tier = ''premium''\<rparr>)))"

definition calculate_backup_costs :: "OrganizationProfile \<Rightarrow> pyerror + ServiceCost" where
  "calculate_backup_costs p =
    (case float_of_int (accounts_count p) of Inl err \<Rightarrow> Inl err | Inr n \<Rightarrow>
    (case int_of_float (fmul n (fsub (Finite 1) (development_accounts_ratio p))) of
       Inl err \<Rightarrow> Inl err | Inr prod_accounts \<Rightarrow>
    let dev_accounts = accounts_count p - prod_accounts;
        backup_storage_gb = (prod_accounts * 100) + (dev_accounts * 30)
    in (case float_of_int backup_storage_gb of Inl err \<Rightarrow> Inl err | Inr st \<Rightarrow>
    let storage_cost = fmul st AWS_BACKUP_STORAGE_PER_GB_MONTH;
        cross_region_gb = fmul st (fl (5 / 10));
        cross_region_cost = fmul cross_region_gb AWS_BACKUP_CROSS_REGION_COPY_PER_GB;
        monthly_cost = fadd storage_cost cross_region_cost;
        annual_cost = fmul monthly_cost (Finite 12)
    in (case fmt_int_f0 backup_storage_gb of Inl err \<Rightarrow> Inl err | Inr st_str \<Rightarrow>
    let drivers = [''Backup storage: ~'' @ st_str @ '' GB across ''
                     @ str_int (accounts_count p) @ '' accounts'',
                   ''Cross-region replication: ~'' @ fmt_f0 cross_region_gb @ '' GB for DR'',
                   ''EBS snapshots, RDS backups, EFS backups'',
                   ''Automated backup lifecycle management''];
        potential = fl (25 / 100)
    in Inr \<lparr>service_name = ''AWS Backup'', monthly_cost = monthly_cost,
             annual_cost = annual_cost, cost_drivers = drivers,
             optimization_potential = potential, cost_tier = ''standard''\<rparr>))))"

section \<open>Report\<close>

record ServiceEntry =
  entry_name :: string
  entry_monthly_cost :: pyfloat
  entry_annual_cost :: pyfloat
  entry_cost_drivers :: "string list"
  entry_optimization_potential_pct :: pyfloat
  entry_cost_tier :: string
  entry_percentage_of_total :: pyfloat

record PotentialSavings =
  savings_monthly :: pyfloat
  savings_annual :: pyfloat
  savings_percentage :: pyfloat

record Totals =
  totals_monthly_cost :: pyfloat
  totals_annual_cost :: pyfloat
  totals_optimized_monthly :: pyfloat
  totals_optimized_annual :: pyfloat
  potential_savings :: PotentialSavings

record CostBreakdown =
  services :: "ServiceEntry list"
  totals :: Totals

record BusinessMetrics =
  cost_per_employee_monthly :: pyfloat
  cost_per_employee_annual :: pyfloat
  cost_per_account_monthly :: pyfloat
  cost_per_account_annual :: pyfloat

record Recommendation =
  priority :: string
  category :: string
  title :: string
  description :: string
  estimated_savings_annual :: pyfloat
  implementation_effort :: string

record RiskFactor =
  risk :: string
  risk_description :: string
  mitigation :: string

record RiskAnalysis =
  risk_level :: string
  risk_factors :: "RiskFactor list"

record CostAnalysis =
  timestamp :: string
  currency :: string
  region_basis :: string

record CostReport =
  organization_profile :: OrganizationProfile
  cost_analysis :: CostAnalysis
  cost_breakdown :: CostBreakdown
  business_metrics :: BusinessMetrics
  recommendations :: "Recommendation list"
  risk_analysis :: RiskAnalysis

subsection \<open>Recommendations and risk\<close>

text \<open>
  \<open>_generate_recommendations\<close>: two entries are always present, a third one is
  appended for more than 20 accounts and a fourth one for the PCI DSS framework. The
  argument \<open>services\<close> is not used by the method.
\<close>

definition generate_recommendations ::
  "OrganizationProfile \<Rightarrow> ServiceCost list \<Rightarrow> pyfloat \<Rightarrow> Recommendation list" where
  "generate_recommendations p svcs total_annual =
    [\<lparr>priority = ''high'', category = ''cost_optimization'',
      title = ''Implement Transit Gateway Reserved Instances'',
      description = ''Purchase 1-year reserved instances for Transit Gateway attachments'',
      estimated_savings_annual = fmul total_annual (fl (15 / 100)),
      implementation_effort = ''low''\<rparr>,
     \<lparr>priority = ''high'', category = ''log_optimization'',
      title = ''Configure CloudWatch Logs retention policies'',
      description = ''Implement tiered retention: 30 days (debug), 90 days (info), 365 days (error)'',
      estimated_savings_annual = fmul total_annual (fl (12 / 100)),
      implementation_effort = ''medium''\<rparr>]
    @ (if accounts_count p > 20 then
        [\<lparr>priority = ''medium'', category = ''governance'',
          title = ''Implement account-level budget controls'',
          description = ''Set up automated budget alerts and spending limits per account'',
          estimated_savings_annual = fmul total_annual (fl (8 / 100)),
          implementation_effort = ''high''\<rparr>]
       else [])
    @ (if ''pci-dss'' \<in> set (compliance_requirements p) then
        [\<lparr>priority = ''medium'', category = ''compliance'',
          title = ''Optimize PCI DSS scope'',
          description = ''Reduce PCI DSS scope by network segmentation and data flow optimization'',
          estimated_savings_annual = fmul total_annual (fl (5 / 100)),
          implementation_effort = ''high''\<rparr>]
       else [])"

definition high_monthly_spend :: RiskFactor where
  "high_monthly_spend =
    \<lparr>risk = ''high_monthly_spend'',
     risk_description = ''Monthly spend exceeds $2,000 - implement strict monitoring'',
     mitigation = ''Set up daily cost alerts and weekly reviews''\<rparr>"

definition multi_region_complexity :: RiskFactor where
  "multi_region_complexity =
    \<lparr>risk = ''multi_region_complexity'',
     risk_description = ''Multi-region deployment increases data transfer costs'',
     mitigation = ''Optimize cross-region traffic patterns and implement data locality''\<rparr>"

definition account_sprawl :: RiskFactor where
  "account_sprawl =
    \<lparr>risk = ''account_sprawl'',
     risk_description = ''Large number of accounts may lead to governance challenges'',
     mitigation = ''Implement automated account lifecycle management''\<rparr>"

definition generate_risk_analysis :: "OrganizationProfile \<Rightarrow> pyfloat \<Rightarrow> RiskAnalysis" where
  "generate_risk_analysis p monthly =
    (let factors = (if fgt_int monthly 2000 then [high_monthly_spend] else [])
                 @ (if length (regions p) > 2 then [multi_region_complexity] else [])
                 @ (if accounts_count p > 50 then [account_sprawl] else [])
     in \<lparr>risk_level = (if length factors \<ge> 2 then ''high''
                        else if factors \<noteq> [] then ''medium'' else ''low''),
         risk_factors = factors\<rparr>)"

subsection \<open>Aggregation\<close>

definition calculate_services :: "OrganizationProfile \<Rightarrow> pyerror + ServiceCost list" where
  "calculate_services p =
    (let ct = calculate_control_tower_costs p
     in (case calculate_guardduty_costs p of Inl err \<Rightarrow> Inl err | Inr gd \<Rightarrow>
        (case calculate_config_costs p of Inl err \<Rightarrow> Inl err | Inr cf \<Rightarrow>
        (case calculate_transit_gateway_costs p of Inl err \<Rightarrow> Inl err | Inr tg \<Rightarrow>
        (case calculate_cloudtrail_costs p of Inl err \<Rightarrow> Inl err | Inr tr \<Rightarrow>
        (case calculate_cloudwatch_costs p of Inl err \<Rightarrow> Inl err | Inr cw \<Rightarrow>
        (case calculate_security_hub_costs p of Inl err \<Rightarrow> Inl err | Inr sh \<Rightarrow>
        (case calculate_backup_costs p of Inl err \<Rightarrow> Inl err | Inr bk \<Rightarrow>
        Inr [ct, gd, cf, tg, tr, cw, sh, bk]))))))))"

definition total_monthly :: "ServiceCost list \<Rightarrow> pyfloat" where
  "total_monthly svcs = py_sum (map monthly_cost svcs)"

definition total_annual :: "ServiceCost list \<Rightarrow> pyfloat" where
  "total_annual svcs = py_sum (map annual_cost svcs)"

definition optimized_monthly :: "ServiceCost list \<Rightarrow> pyfloat" where
  "optimized_monthly svcs =
     py_sum (map (\<lambda>s. fmul (monthly_cost s) (fsub (Finite 1) (optimization_potential s))) svcs)"

definition fdiv_int :: "pyfloat \<Rightarrow> int \<Rightarrow> pyerror + pyfloat" where
  "fdiv_int x i = (case float_of_int i of Inl err \<Rightarrow> Inl err | Inr y \<Rightarrow> fdiv x y)"

definition service_entry :: "pyfloat \<Rightarrow> ServiceCost \<Rightarrow> pyerror + ServiceEntry" where
  "service_entry tm s =
    (case fdiv (monthly_cost s) tm of Inl err \<Rightarrow> Inl err | Inr share \<Rightarrow>
    Inr \<lparr>entry_name = service_name s,
         entry_monthly_cost = py_round (monthly_cost s) 2,
         entry_annual_cost = py_round (annual_cost s) 2,
         entry_cost_drivers = cost_drivers s,
         entry_optimization_potential_pct = py_round (fmul (optimization_potential s) (Finite 100)) 1,
         entry_cost_tier = cost_tier s,
         entry_percentage_of_total = py_round (fmul share (Finite 100)) 1\<rparr>)"

definition generate_cost_report :: "OrganizationProfile \<Rightarrow> pyerror + CostReport" where
  "generate_cost_report p =
    (case calculate_services p of Inl err \<Rightarrow> Inl err | Inr svcs \<Rightarrow>
    let tm = total_monthly svcs;
        ta = total_annual svcs;
        om = optimized_monthly svcs;
        optimized_annual = fmul om (Finite 12);
        potential_savings_monthly = fsub tm om;
        potential_savings_annual = fsub ta optimized_annual
    in (case fdiv_int tm (employees p) of Inl err \<Rightarrow> Inl err | Inr per_employee_monthly \<Rightarrow>
       (case fdiv_int ta (employees p) of Inl err \<Rightarrow> Inl err | Inr per_employee_annual \<Rightarrow>
       (case map_err (service_entry tm) svcs of Inl err \<Rightarrow> Inl err | Inr entries \<Rightarrow>
       (case fdiv potential_savings_annual ta of Inl err \<Rightarrow> Inl err | Inr savings_share \<Rightarrow>
       (case fdiv_int tm (accounts_count p) of Inl err \<Rightarrow> Inl err | Inr per_account_monthly \<Rightarrow>
       (case fdiv_int ta (accounts_count p) of Inl err \<Rightarrow> Inl err | Inr per_account_annual \<Rightarrow>
       Inr \<lparr>organization_profile = p,
            cost_analysis = \<lparr>timestamp = ''2024-09-25T00:00:00Z'', currency = ''USD'',
                              region_basis = ''us-east-1''\<rparr>,
            cost_breakdown =
              \<lparr>services = entries,
               totals = \<lparr>totals_monthly_cost = py_round tm 2,
                          totals_annual_cost = py_round ta 2,
                          totals_optimized_monthly = py_round om 2,
                          totals_optimized_annual = py_round optimized_annual 2,
                          potential_savings =
                            \<lparr>savings_monthly = py_round potential_savings_monthly 2,
                             savings_annual = py_round potential_savings_annual 2,
                             savings_percentage = py_round (fmul savings_share (Finite 100)) 1\<rparr>\<rparr>\<rparr>,
            business_metrics =
              \<lparr>cost_per_employee_monthly = py_round per_employee_monthly 2,
               cost_per_employee_annual = py_round per_employee_annual 2,
               cost_per_account_monthly = py_round per_account_monthly 2,
               cost_per_account_annual = py_round per_account_annual 2\<rparr>,
            recommendations = generate_recommendations p svcs ta,
            risk_analysis = generate_risk_analysis p tm\<rparr>)))))))"

text \<open>
  The invariants of an organization profile: at least one account and one employee, a
  development ratio that is a float between 0 and 1, a non-negative data volume and a
  non-empty list of regions.
\<close>

definition is_float :: "rat \<Rightarrow> bool" where
  "is_float q = (fl q = Finite q)"

definition valid_profile :: "OrganizationProfile \<Rightarrow> bool" where
  "valid_profile p =
    (1 \<le> accounts_count p \<and> 1 \<le> employees p \<and> 0 \<le> expected_data_gb_monthly p \<and>
     regions p \<noteq> [] \<and>
     (case development_accounts_ratio p of
        Finite r \<Rightarrow> 0 \<le> r \<and> r \<le> 1 \<and> is_float r | _ \<Rightarrow> False))"

text \<open>The profile of the end-to-end example, which is also the default profile of the CLI.\<close>

definition example_profile :: OrganizationProfile where
  "example_profile =
    \<lparr>name = ''Enterprise Organization'', accounts_count = 10, employees = 500,
     regions = [''us-east-1''], compliance_requirements = [''sox'', ''pci-dss''],
     expected_data_gb_monthly = 1000, business_hours_only = False,
     development_accounts_ratio = fl (3 / 10)\<rparr>"

section \<open>Vocabulary of the properties\<close>

definition budget_controls :: "Recommendation \<Rightarrow> bool" where
  "budget_controls r = (title r = ''Implement account-level budget controls'')"

text \<open>The number of risk conditions that hold for a profile and a monthly total.\<close>

definition risk_count :: "OrganizationProfile \<Rightarrow> pyfloat \<Rightarrow> nat" where
  "risk_count p monthly =
     (if fgt_int monthly 2000 then 1 else 0) + (if 2 < length (regions p) then 1 else 0)
       + (if 50 < accounts_count p then 1 else 0)"

definition sprawl_profile :: OrganizationProfile where
  "sprawl_profile =
    \<lparr>name = ''Enterprise Organization'', accounts_count = 60, employees = 500,
     regions = [''us-east-1'', ''us-west-2'', ''eu-west-1''],
     compliance_requirements = [''sox'', ''pci-dss''],
     expected_data_gb_monthly = 1000, business_hours_only = False,
     development_accounts_ratio = fl (3 / 10)\<rparr>"

text \<open>A float that is not negative: a finite value at least 0, or plus infinity.\<close>

definition nonneg :: "pyfloat \<Rightarrow> bool" where
  "nonneg x = (case x of Finite a \<Rightarrow> 0 \<le> a | PInf \<Rightarrow> True | _ \<Rightarrow> False)"

definition fpos :: "pyfloat \<Rightarrow> bool" where
  "fpos x = (case x of Finite a \<Rightarrow> 0 < a | _ \<Rightarrow> False)"

text \<open>
  Profiles whose sizes stay far inside the float range: every integer is at most
  \<open>2^900\<close> and every list has at most \<open>2^64\<close> entries.
\<close>

definition in_range :: "OrganizationProfile \<Rightarrow> bool" where
  "in_range p =
    (accounts_count p \<le> 2 ^ 900 \<and> employees p \<le> 2 ^ 900 \<and>
     expected_data_gb_monthly p \<le> 2 ^ 900 \<and>
     int (length (regions p)) \<le> 2 ^ 64 \<and> int (length (compliance_requirements p)) \<le> 2 ^ 64)"

text \<open>A valid profile with more accounts than the largest float.\<close>

definition huge_profile :: OrganizationProfile where
  "huge_profile = example_profile\<lparr>accounts_count := 2 ^ 1024\<rparr>"

text \<open>A valid profile without compliance frameworks and without data volume.\<close>

definition quiet_profile :: OrganizationProfile where
  "quiet_profile = example_profile\<lparr>compliance_requirements := [], expected_data_gb_monthly := 0\<rparr>"

section \<open>Properties of rounding\<close>

lemma pow2_eq: "pow2 e = 2 powi e"
proof (cases "0 \<le> e")
  case True
  then show ?thesis
    by (simp add: pow2_def power_int_nonneg_exp)
next
  case False
  then have "2 powi e = 1 / ((2::rat) ^ nat (- e))"
    by (simp add: power_int_def power_one_over)
  then show ?thesis
    using False by (simp add: pow2_def)
qed

lemma pow2_pos [simp]: "0 < pow2 e"
  by (simp add: pow2_eq)

lemma pow2_nonneg [simp]: "0 \<le> pow2 e"
  by (simp add: pow2_eq)

lemma pow2_add: "pow2 (a + b) = pow2 a * pow2 b"
  by (simp add: pow2_eq power_int_add)

lemma pow2_diff: "pow2 (a - b) = pow2 a / pow2 b"
  by (simp add: pow2_eq power_int_diff)

lemma pow2_mono: "a \<le> b \<Longrightarrow> pow2 a \<le> pow2 b"
  by (simp add: pow2_eq power_int_increasing)

lemma pow2_strict_mono: "a < b \<Longrightarrow> pow2 a < pow2 b"
  by (simp add: pow2_eq power_int_strict_increasing)

lemma pow2_0 [simp]: "pow2 0 = 1"
  by (simp add: pow2_def)

lemma pow2_nat: "0 \<le> e \<Longrightarrow> pow2 e = of_int (2 ^ nat e)"
  by (simp add: pow2_def)

lemma pow2_Suc: "pow2 (e + 1) = 2 * pow2 e"
  using pow2_add [of e 1] by (simp add: pow2_def)

lemma bitlen_bounds:
  "0 < x \<Longrightarrow> 1 \<le> bitlen x \<and> 2 ^ nat (bitlen x - 1) \<le> x \<and> x < 2 ^ nat (bitlen x)"
proof (induction x rule: bitlen.induct)
  case (1 x)
  have b: "bitlen x = bitlen (x div 2) + 1"
    using "1.prems" by (simp add: bitlen.simps [of x])
  show ?case
  proof (cases "0 < x div 2")
    case True
    then have IH: "1 \<le> bitlen (x div 2)" "2 ^ nat (bitlen (x div 2) - 1) \<le> x div 2"
        "x div 2 < 2 ^ nat (bitlen (x div 2))"
      using "1.IH" "1.prems" by simp_all
    have n1: "nat (bitlen x - 1) = Suc (nat (bitlen (x div 2) - 1))"
      using IH(1) b by simp
    have n2: "nat (bitlen x) = Suc (nat (bitlen (x div 2)))"
      using IH(1) b by simp
    have "2 * 2 ^ nat (bitlen (x div 2) - 1) \<le> x"
      using IH(2) by linarith
    moreover have "x < 2 * 2 ^ nat (bitlen (x div 2))"
      using IH(3) by linarith
    ultimately show ?thesis
      using IH(1) b n1 n2 by simp
  next
    case False
    then have x1: "x = 1"
      using "1.prems" by linarith
    have "bitlen (x div 2) = 0"
      using False by (simp add: bitlen.simps [of "x div 2"])
    then show ?thesis
      using b x1 by simp
  qed
qed

lemma ilog2_bounds:
  assumes "0 < q"
  shows "pow2 (ilog2 q) \<le> q \<and> q < pow2 (ilog2 q + 1)"
proof -
  obtain a b where ab: "quotient_of q = (a, b)"
    by force
  have b0: "0 < b"
    using quotient_of_denom_pos [OF ab] .
  have q: "q = of_int a / of_int b"
    using quotient_of_div [OF ab] .
  have a0: "0 < a"
    using assms b0 q by (simp add: zero_less_divide_iff)
  define la where "la = bitlen a"
  define lb where "lb = bitlen b"
  have A: "1 \<le> la" "2 ^ nat (la - 1) \<le> a" "a < 2 ^ nat la"
    using bitlen_bounds [OF a0] by (simp_all add: la_def)
  have B: "1 \<le> lb" "2 ^ nat (lb - 1) \<le> b" "b < 2 ^ nat lb"
    using bitlen_bounds [OF b0] by (simp_all add: lb_def)
  have ra: "pow2 (la - 1) \<le> of_int a" "of_int a < pow2 la"
    using A by (simp_all add: pow2_nat of_int_le_iff [symmetric] of_int_less_iff [symmetric] del: of_int_le_iff of_int_less_iff)
  have rb: "pow2 (lb - 1) \<le> of_int b" "of_int b < pow2 lb"
    using B by (simp_all add: pow2_nat of_int_le_iff [symmetric] of_int_less_iff [symmetric] del: of_int_le_iff of_int_less_iff)
  have rb0: "(0::rat) < of_int b"
    using b0 by simp
  have up: "q < pow2 (la - lb + 1)"
  proof -
    have "q < pow2 la / of_int b"
      unfolding q using ra(2) rb0 by (simp add: divide_strict_right_mono)
    also have "\<dots> \<le> pow2 la / pow2 (lb - 1)"
      using rb(1) rb0 by (intro divide_left_mono) simp_all
    also have "\<dots> = pow2 (la - lb + 1)"
      by (simp add: pow2_diff [symmetric] algebra_simps)
    finally show ?thesis .
  qed
  have lo: "pow2 (la - lb - 1) < q"
  proof -
    have "pow2 (la - lb - 1) = pow2 (la - 1) / pow2 lb"
      by (simp add: pow2_diff [symmetric] algebra_simps)
    also have "\<dots> < pow2 (la - 1) / of_int b"
      using rb(2) rb0 by (intro divide_strict_left_mono) simp_all
    also have "\<dots> \<le> q"
      unfolding q using ra(1) rb0 by (simp add: divide_right_mono)
    finally show ?thesis .
  qed
  have il: "ilog2 q = (if pow2 (la - lb) \<le> q then la - lb else la - lb - 1)"
    by (simp add: ilog2_def ab la_def lb_def Let_def)
  show ?thesis
  proof (cases "pow2 (la - lb) \<le> q")
    case True
    then show ?thesis using il up by simp
  next
    case False
    then show ?thesis using il lo by simp
  qed
qed

lemma ilog2_unique:
  assumes "pow2 e \<le> q" "q < pow2 (e + 1)"
  shows "ilog2 q = e"
proof -
  have q0: "0 < q"
    using assms(1) pow2_pos [of e] by linarith
  note b = ilog2_bounds [OF q0]
  have "pow2 e < pow2 (ilog2 q + 1)"
    using assms(1) b by linarith
  then have 1: "e < ilog2 q + 1"
    using pow2_mono [of "ilog2 q + 1" e] by (cases "e < ilog2 q + 1") auto
  have "pow2 (ilog2 q) < pow2 (e + 1)"
    using assms(2) b by linarith
  then have 2: "ilog2 q < e + 1"
    using pow2_mono [of "e + 1" "ilog2 q"] by (cases "ilog2 q < e + 1") auto
  show ?thesis using 1 2 by linarith
qed

lemma ilog2_mono:
  assumes "0 < q" "q \<le> r"
  shows "ilog2 q \<le> ilog2 r"
proof (rule ccontr)
  assume "\<not> ilog2 q \<le> ilog2 r"
  then have "ilog2 r + 1 \<le> ilog2 q" by simp
  then have "pow2 (ilog2 r + 1) \<le> pow2 (ilog2 q)" by (rule pow2_mono)
  moreover have "r < pow2 (ilog2 r + 1)" using ilog2_bounds [of r] assms by simp
  moreover have "pow2 (ilog2 q) \<le> q" using ilog2_bounds [OF assms(1)] by simp
  ultimately show False using assms(2) by linarith
qed


lemma rhe_of_int [simp]: "round_half_even (of_int n) = n"
  by (simp add: round_half_even_def)

lemma rhe_cases:
  "round_half_even x = \<lfloor>x\<rfloor> \<and> x - of_int \<lfloor>x\<rfloor> \<le> 1 / 2 \<or>
   round_half_even x = \<lfloor>x\<rfloor> + 1 \<and> 1 / 2 \<le> x - of_int \<lfloor>x\<rfloor>"
  by (auto simp: round_half_even_def Let_def)

lemma rhe_err: "\<bar>of_int (round_half_even x) - x\<bar> \<le> 1 / 2"
proof -
  have "of_int \<lfloor>x\<rfloor> \<le> x" "x < of_int \<lfloor>x\<rfloor> + 1"
    by linarith+
  then show ?thesis
    using rhe_cases [of x] by auto
qed

lemma rhe_mono:
  assumes "x \<le> y"
  shows "round_half_even x \<le> round_half_even y"
proof -
  have flo: "\<lfloor>x\<rfloor> \<le> \<lfloor>y\<rfloor>"
    using assms by (rule floor_mono)
  show ?thesis
  proof (cases "\<lfloor>x\<rfloor> = \<lfloor>y\<rfloor>")
    case True
    then have "x - of_int \<lfloor>x\<rfloor> \<le> y - of_int \<lfloor>y\<rfloor>"
      using assms by simp
    then show ?thesis
      using True by (auto simp: round_half_even_def Let_def)
  next
    case False
    then have "\<lfloor>x\<rfloor> + 1 \<le> \<lfloor>y\<rfloor>"
      using flo by linarith
    moreover have "round_half_even x \<le> \<lfloor>x\<rfloor> + 1"
      using rhe_cases [of x] by auto
    moreover have "\<lfloor>y\<rfloor> \<le> round_half_even y"
      using rhe_cases [of y] by auto
    ultimately show ?thesis by linarith
  qed
qed

lemma rhe_ge: "of_int n \<le> x \<Longrightarrow> n \<le> round_half_even x"
  using rhe_mono [of "of_int n" x] by simp

lemma rhe_le: "x \<le> of_int n \<Longrightarrow> round_half_even x \<le> n"
  using rhe_mono [of x "of_int n"] by simp

lemma rne_0 [simp]: "rne 0 = 0"
  by (simp add: rne_def)

lemma rne_pos_eq:
  "q \<noteq> 0 \<Longrightarrow> rne q = of_int (round_half_even (q / pow2 (qexp q))) * pow2 (qexp q)"
  by (simp add: rne_def Let_def)

lemma qexp_pos: "0 < q \<Longrightarrow> qexp q = max (ilog2 q - 52) (- 1074)"
  by (simp add: qexp_def)

lemma rne_nonneg:
  assumes "0 \<le> q"
  shows "0 \<le> rne q"
proof (cases "q = 0")
  case True
  then show ?thesis by simp
next
  case False
  then have "0 \<le> q / pow2 (qexp q)"
    using assms by simp
  then have "0 \<le> round_half_even (q / pow2 (qexp q))"
    using rhe_ge [of 0] by simp
  then show ?thesis
    using False by (simp add: rne_pos_eq)
qed

lemma rne_ge_pow2_aux:
  assumes "0 < q" "pow2 m \<le> q" "qexp q \<le> m"
  shows "pow2 m \<le> rne q"
proof -
  define k where "k = qexp q"
  have km: "0 \<le> m - k" using assms(3) k_def by simp
  have "pow2 (m - k) \<le> q / pow2 k"
    using assms(2) by (simp add: pow2_diff divide_right_mono)
  then have "of_int (2 ^ nat (m - k)) \<le> q / pow2 k"
    using km by (simp add: pow2_nat)
  then have "2 ^ nat (m - k) \<le> round_half_even (q / pow2 k)"
    by (rule rhe_ge)
  then have "(of_int (2 ^ nat (m - k)) :: rat) \<le> of_int (round_half_even (q / pow2 k))"
    by (simp only: of_int_le_iff)
  then have "pow2 (m - k) \<le> of_int (round_half_even (q / pow2 k))"
    using km by (simp add: pow2_nat)
  then have "pow2 (m - k) * pow2 k \<le> of_int (round_half_even (q / pow2 k)) * pow2 k"
    by (rule mult_right_mono) simp
  moreover have "pow2 (m - k) * pow2 k = pow2 m"
    by (simp add: pow2_add [symmetric])
  moreover have "rne q = of_int (round_half_even (q / pow2 k)) * pow2 k"
    using assms(1) by (simp add: rne_pos_eq k_def)
  ultimately show ?thesis
    by simp
qed

lemma rne_le_pow2_aux:
  assumes "0 < q" "q \<le> pow2 m" "qexp q \<le> m"
  shows "rne q \<le> pow2 m"
proof -
  define k where "k = qexp q"
  have km: "0 \<le> m - k" using assms(3) k_def by simp
  have "q / pow2 k \<le> pow2 (m - k)"
    using assms(2) by (simp add: pow2_diff divide_right_mono)
  then have "q / pow2 k \<le> of_int (2 ^ nat (m - k))"
    using km by (simp add: pow2_nat)
  then have "round_half_even (q / pow2 k) \<le> 2 ^ nat (m - k)"
    by (rule rhe_le)
  then have "(of_int (round_half_even (q / pow2 k)) :: rat) \<le> of_int (2 ^ nat (m - k))"
    by (simp only: of_int_le_iff)
  then have "of_int (round_half_even (q / pow2 k)) \<le> pow2 (m - k)"
    using km by (simp add: pow2_nat)
  then have "of_int (round_half_even (q / pow2 k)) * pow2 k \<le> pow2 (m - k) * pow2 k"
    by (rule mult_right_mono) simp
  moreover have "pow2 (m - k) * pow2 k = pow2 m"
    by (simp add: pow2_add [symmetric])
  moreover have "rne q = of_int (round_half_even (q / pow2 k)) * pow2 k"
    using assms(1) by (simp add: rne_pos_eq k_def)
  ultimately show ?thesis
    by simp
qed

lemma ilog2_le: "0 < q \<Longrightarrow> q \<le> pow2 m \<Longrightarrow> ilog2 q \<le> m"
proof (rule ccontr)
  assume a: "0 < q" "q \<le> pow2 m" "\<not> ilog2 q \<le> m"
  then have "pow2 m < pow2 (ilog2 q)"
    by (intro pow2_strict_mono) simp
  then show False
    using ilog2_bounds [OF a(1)] a(2) by linarith
qed

lemma ilog2_ge: "pow2 m \<le> q \<Longrightarrow> m \<le> ilog2 q"
proof (rule ccontr)
  assume a: "pow2 m \<le> q" "\<not> m \<le> ilog2 q"
  have q0: "0 < q" using a(1) pow2_pos [of m] by linarith
  have "pow2 (ilog2 q + 1) \<le> pow2 m"
    using a(2) by (intro pow2_mono) simp
  then show False
    using ilog2_bounds [OF q0] a(1) by linarith
qed

lemma rne_le_pow2:
  assumes "0 \<le> q" "q \<le> pow2 m" "- 1074 \<le> m"
  shows "rne q \<le> pow2 m"
proof (cases "q = 0")
  case True
  then show ?thesis by simp
next
  case False
  then have q0: "0 < q" using assms(1) by simp
  have "ilog2 q \<le> m" using ilog2_le [OF q0 assms(2)] .
  then have "qexp q \<le> m"
    using assms(3) q0 by (simp add: qexp_pos)
  then show ?thesis
    using rne_le_pow2_aux [OF q0 assms(2)] by simp
qed

lemma rne_ge_pow2:
  assumes "pow2 m \<le> q" "- 1074 \<le> m"
  shows "pow2 m \<le> rne q"
proof -
  have q0: "0 < q" using assms(1) pow2_pos [of m] by linarith
  have me: "m \<le> ilog2 q" using ilog2_ge [OF assms(1)] .
  have "qexp q \<le> ilog2 q"
    using me assms(2) q0 by (simp add: qexp_pos)
  then have "pow2 (ilog2 q) \<le> rne q"
    using rne_ge_pow2_aux [OF q0 _ ] ilog2_bounds [OF q0] by simp
  moreover have "pow2 m \<le> pow2 (ilog2 q)"
    using me by (rule pow2_mono)
  ultimately show ?thesis by linarith
qed

lemma rne_pow2: "- 1074 \<le> k \<Longrightarrow> rne (pow2 k) = pow2 k"
  using rne_le_pow2 [of "pow2 k" k] rne_ge_pow2 [of k "pow2 k"] by simp

lemma rne_mono:
  assumes "0 \<le> q" "q \<le> r"
  shows "rne q \<le> rne r"
proof (cases "q = 0")
  case True
  then show ?thesis
    using rne_nonneg [of r] assms by simp
next
  case False
  then have q0: "0 < q" using assms(1) by simp
  then have r0: "0 < r" using assms(2) by linarith
  have ee: "ilog2 q \<le> ilog2 r"
    using ilog2_mono [OF q0 assms(2)] .
  then have kk: "qexp q \<le> qexp r"
    using q0 r0 by (simp add: qexp_pos)
  show ?thesis
  proof (cases "qexp q = qexp r")
    case True
    have "q / pow2 (qexp r) \<le> r / pow2 (qexp r)"
      using assms(2) by (simp add: divide_right_mono)
    then have "round_half_even (q / pow2 (qexp r)) \<le> round_half_even (r / pow2 (qexp r))"
      by (rule rhe_mono)
    then have "(of_int (round_half_even (q / pow2 (qexp r))) :: rat)
                 \<le> of_int (round_half_even (r / pow2 (qexp r)))"
      by (simp only: of_int_le_iff)
    then have "of_int (round_half_even (q / pow2 (qexp r))) * pow2 (qexp r)
                 \<le> of_int (round_half_even (r / pow2 (qexp r))) * pow2 (qexp r)"
      by (simp add: mult_right_mono)
    then show ?thesis
      using q0 r0 True by (simp add: rne_pos_eq)
  next
    case False
    then have lt: "qexp q < qexp r" using kk by simp
    have kq: "ilog2 q - 52 \<le> qexp q" "- 1074 \<le> qexp q"
      using q0 by (simp_all add: qexp_pos)
    have kr: "qexp r = ilog2 r - 52"
      using lt kq(2) qexp_pos [OF r0] by linarith
    have "pow2 (ilog2 r) \<le> rne r"
      using rne_ge_pow2_aux [OF r0, of "ilog2 r"] ilog2_bounds [OF r0] kr by simp
    moreover have "rne q \<le> pow2 (ilog2 r)"
    proof -
      have "ilog2 q + 1 \<le> ilog2 r"
        using lt kr kq by linarith
      then have "pow2 (ilog2 q + 1) \<le> pow2 (ilog2 r)"
        by (rule pow2_mono)
      then have "q \<le> pow2 (ilog2 r)"
        using ilog2_bounds [OF q0] by linarith
      moreover have "qexp q \<le> ilog2 r"
        using lt kr by linarith
      ultimately show ?thesis
        using rne_le_pow2_aux [OF q0] by simp
    qed
    ultimately show ?thesis by linarith
  qed
qed

lemma rne_err:
  assumes "pow2 (- 1022) \<le> q"
  shows "\<bar>rne q - q\<bar> \<le> pow2 (- 53) * q"
proof -
  have q0: "0 < q" using assms pow2_pos [of "- 1022"] by linarith
  have e: "- 1022 \<le> ilog2 q" using ilog2_ge [OF assms] .
  then have k: "qexp q = ilog2 q - 52"
    using q0 by (simp add: qexp_pos)
  define u where "u = pow2 (qexp q)"
  have u0: "0 < u" by (simp add: u_def)
  have r: "rne q = of_int (round_half_even (q / u)) * u"
    using q0 by (simp add: rne_pos_eq u_def)
  have "\<bar>of_int (round_half_even (q / u)) - q / u\<bar> \<le> 1 / 2"
    by (rule rhe_err)
  then have "\<bar>of_int (round_half_even (q / u)) - q / u\<bar> * u \<le> 1 / 2 * u"
    using u0 by (simp add: mult_right_mono)
  moreover have "\<bar>of_int (round_half_even (q / u)) - q / u\<bar> * u = \<bar>rne q - q\<bar>"
    using u0 by (simp add: r abs_mult [symmetric] left_diff_distrib abs_mult_pos)
  moreover have "1 / 2 * u = pow2 (- 53) * pow2 (ilog2 q)"
  proof -
    have "pow2 (- 53) * pow2 (ilog2 q) = pow2 (- 1 + (ilog2 q - 52))"
      by (simp add: pow2_add [symmetric])
    also have "\<dots> = pow2 (- 1) * u"
      by (simp only: pow2_add u_def k)
    also have "\<dots> = 1 / 2 * u"
      by (simp add: pow2_def)
    finally show ?thesis by simp
  qed
  moreover have "pow2 (- 53) * pow2 (ilog2 q) \<le> pow2 (- 53) * q"
    using ilog2_bounds [OF q0] by (simp add: mult_left_mono)
  ultimately show ?thesis by linarith
qed

lemma rne_int:
  assumes "0 \<le> i" "i \<le> 2 ^ 53"
  shows "rne (of_int i) = of_int i"
proof (cases "i = 0")
  case True
  then show ?thesis by simp
next
  case False
  then have i0: "0 < i" using assms(1) by simp
  then have q0: "(0::rat) < of_int i" by simp
  have "(of_int i :: rat) \<le> of_int (2 ^ 53)"
    using assms(2) by (simp only: of_int_le_iff)
  then have le53: "(of_int i :: rat) \<le> pow2 53"
    by (simp add: pow2_def)
  have "(1::rat) \<le> of_int i"
    using i0 by (simp add: of_int_le_iff [of 1 i, symmetric] del: of_int_le_iff)
  then have e0: "0 \<le> ilog2 (of_int i)"
    using ilog2_ge [of 0 "of_int i"] by simp
  define k where "k = qexp (of_int i :: rat)"
  have kle: "k \<le> 1" "- 1074 \<le> k"
    using ilog2_le [OF q0 le53] q0 by (simp_all add: k_def qexp_pos)
  show ?thesis
  proof (cases "k \<le> 0")
    case True
    have "of_int i / pow2 k = of_int i * pow2 (- k)"
      using pow2_diff [of 0 k] by (simp add: field_simps)
    also have "\<dots> = of_int (i * 2 ^ nat (- k))"
      using True by (simp add: pow2_nat)
    finally have "round_half_even (of_int i / pow2 k) = i * 2 ^ nat (- k)"
      by (simp only: rhe_of_int)
    then have "rne (of_int i) = of_int (i * 2 ^ nat (- k)) * pow2 k"
      using q0 by (simp add: rne_pos_eq k_def)
    also have "\<dots> = of_int i * (pow2 (- k) * pow2 k)"
      using True by (simp add: pow2_nat)
    also have "\<dots> = of_int i"
      by (simp add: pow2_add [symmetric])
    finally show ?thesis .
  next
    case False
    then have k1: "k = 1" using kle by simp
    then have "53 \<le> ilog2 (of_int i :: rat)"
      using q0 by (simp add: k_def qexp_pos)
    then have "pow2 53 \<le> pow2 (ilog2 (of_int i :: rat))"
      by (rule pow2_mono)
    then have "pow2 53 \<le> (of_int i :: rat)"
      using ilog2_bounds [OF q0] by linarith
    then have "(of_int i :: rat) = pow2 53"
      using le53 by linarith
    then show ?thesis
      using rne_pow2 [of 53] by simp
  qed
qed

lemma rne_multiple:
  assumes "0 < r" "r = of_int m * pow2 k" "qexp r \<le> k"
  shows "rne r = r"
proof -
  define k' where "k' = qexp r"
  have d: "0 \<le> k - k'" using assms(3) k'_def by simp
  have "r / pow2 k' = of_int m * (pow2 k / pow2 k')"
    by (simp add: assms(2))
  also have "\<dots> = of_int m * pow2 (k - k')"
    by (simp add: pow2_diff)
  also have "\<dots> = of_int (m * 2 ^ nat (k - k'))"
    using d by (simp add: pow2_nat)
  finally have "round_half_even (r / pow2 k') = m * 2 ^ nat (k - k')"
    by (simp only: rhe_of_int)
  then have "rne r = of_int (m * 2 ^ nat (k - k')) * pow2 k'"
    using assms(1) by (simp add: rne_pos_eq k'_def)
  also have "\<dots> = of_int m * (pow2 (k - k') * pow2 k')"
    using d by (simp add: pow2_nat)
  also have "\<dots> = of_int m * pow2 k"
    by (simp add: pow2_add [symmetric])
  finally show ?thesis
    by (simp add: assms(2))
qed

lemma rne_idem:
  assumes "0 \<le> q"
  shows "rne (rne q) = rne q"
proof (cases "rne q = 0")
  case True
  then show ?thesis by simp
next
  case False
  then have q0: "0 < q"
    using assms by (cases "q = 0") auto
  define e where "e = ilog2 q"
  define k where "k = qexp q"
  define m where "m = round_half_even (q / pow2 k)"
  define r where "r = rne q"
  have r: "r = of_int m * pow2 k"
    using q0 by (simp add: r_def m_def k_def rne_pos_eq)
  have r0: "0 < r"
    using False rne_nonneg [OF assms] by (simp add: r_def)
  have k1074: "- 1074 \<le> k" "e - 52 \<le> k"
    using q0 by (simp_all add: k_def e_def qexp_pos)
  have ke: "k \<le> e + 1"
  proof (rule ccontr)
    assume "\<not> k \<le> e + 1"
    then have "e + 1 - k \<le> - 1" by simp
    then have "pow2 (e + 1 - k) \<le> pow2 (- 1)" by (rule pow2_mono)
    moreover have "q / pow2 k < pow2 (e + 1 - k)"
      using ilog2_bounds [OF q0] by (simp add: pow2_diff e_def divide_strict_right_mono)
    moreover have "pow2 (- 1) = 1 / 2"
      by (simp add: pow2_def)
    ultimately have xh: "q / pow2 k < 1 / 2"
      by linarith
    define x where "x = q / pow2 k"
    have x0: "0 \<le> x"
      using q0 by (simp add: x_def)
    have x1: "x < 1 / 2"
      using xh by (simp only: x_def)
    have "\<lfloor>x\<rfloor> = 0"
      using x0 x1 by (intro floor_unique) auto
    then have "round_half_even x = 0"
      using x1 by (simp add: round_half_even_def)
    then have "m = 0"
      by (simp add: m_def x_def)
    then show False
      using r r0 by simp
  qed
  have rle: "r \<le> pow2 (e + 1)"
    unfolding r_def
    using rne_le_pow2_aux [OF q0, of "e + 1"] ilog2_bounds [OF q0] ke
    by (simp add: e_def k_def)
  show ?thesis
  proof (cases "r = pow2 (e + 1)")
    case True
    then show ?thesis
      using rne_pow2 [of "e + 1"] k1074 ke by (simp add: r_def)
  next
    case False
    then have "r < pow2 (e + 1)" using rle by simp
    then have "ilog2 r < e + 1"
      using ilog2_bounds [OF r0] pow2_mono [of "e + 1" "ilog2 r"]
      by (cases "ilog2 r < e + 1") auto
    then have "qexp r \<le> k"
      using r0 k1074 by (simp add: qexp_pos)
    then show ?thesis
      using rne_multiple [OF r0 r] by (simp add: r_def)
  qed
qed

lemma fl_nonneg_cases:
  assumes "0 \<le> q"
  shows "fl q = PInf \<or> fl q = Finite (rne q)"
  using rne_nonneg [OF assms] pow2_pos [of 1024]
  by (auto simp: fl_def Let_def)

lemma fl_fin:
  assumes "0 \<le> q" "q \<le> pow2 m" "- 1074 \<le> m" "m \<le> 1023"
  shows "fl q = Finite (rne q)"
proof -
  have "rne q \<le> pow2 m"
    using rne_le_pow2 [OF assms(1-3)] .
  moreover have "pow2 m < pow2 1024"
    using assms(4) by (intro pow2_strict_mono) simp
  ultimately have "rne q < pow2 1024" by linarith
  moreover have "- pow2 1024 < rne q"
    using rne_nonneg [OF assms(1)] pow2_pos [of 1024] by linarith
  ultimately show ?thesis
    by (simp add: fl_def Let_def)
qed

lemma fl_idem:
  assumes "0 \<le> q" "fl q = Finite r"
  shows "fl r = Finite r"
proof -
  have r: "r = rne q"
    using fl_nonneg_cases [OF assms(1)] assms(2) by auto
  then have "rne r = r"
    using rne_idem [OF assms(1)] by simp
  moreover have "\<not> pow2 1024 \<le> r" "\<not> r \<le> - pow2 1024"
    using assms(2) r by (auto simp: fl_def Let_def split: if_splits)
  ultimately show ?thesis
    by (simp add: fl_def Let_def)
qed

section \<open>Signs of float results\<close>

lemma nonneg_Finite [simp]: "nonneg (Finite a) \<longleftrightarrow> 0 \<le> a"
  by (simp add: nonneg_def)

lemma nonneg_simps [simp]: "nonneg PInf" "\<not> nonneg NInf" "\<not> nonneg NaN"
  by (simp_all add: nonneg_def)

lemma fpos_Finite [simp]: "fpos (Finite a) \<longleftrightarrow> 0 < a"
  by (simp add: fpos_def)

lemma fpos_E: "fpos x \<Longrightarrow> \<exists>a. x = Finite a \<and> 0 < a"
  by (cases x) (simp_all add: fpos_def)

lemma nonneg_fl: "0 \<le> q \<Longrightarrow> nonneg (fl q)"
  using fl_nonneg_cases [of q] rne_nonneg [of q] by auto

lemma fpos_fl:
  assumes "pow2 a \<le> q" "q \<le> pow2 b" "- 1074 \<le> a" "b \<le> 1023"
  shows "fpos (fl q)"
proof -
  have q0: "0 \<le> q" using assms(1) pow2_pos [of a] by linarith
  have ab: "a \<le> b"
    using assms(1,2) pow2_strict_mono [of b a] by (cases "a \<le> b") auto
  have "fl q = Finite (rne q)"
    using fl_fin [OF q0 assms(2) _ assms(4)] assms(3) ab by simp
  moreover have "pow2 a \<le> rne q"
    using rne_ge_pow2 [OF assms(1,3)] .
  moreover have "0 < rne q"
    using \<open>pow2 a \<le> rne q\<close> pow2_pos [of a] by linarith
  ultimately show ?thesis
    by simp
qed

lemma nonneg_fadd: "nonneg x \<Longrightarrow> nonneg y \<Longrightarrow> nonneg (fadd x y)"
  by (cases x; cases y) (simp_all add: nonneg_fl)

lemma nonneg_fmul_fpos: "nonneg x \<Longrightarrow> fpos y \<Longrightarrow> nonneg (fmul x y)"
  by (cases x; cases y) (simp_all add: nonneg_fl inf_of_sign_def fpos_def)

lemma nonneg_fmul_fpos': "fpos y \<Longrightarrow> nonneg x \<Longrightarrow> nonneg (fmul y x)"
  by (cases x; cases y) (simp_all add: nonneg_fl inf_of_sign_def fpos_def)

lemma float_of_int_nonneg:
  assumes "float_of_int i = Inr x" "0 \<le> i"
  shows "nonneg x"
proof -
  have "nonneg (fl (of_int i))"
    using assms(2) by (simp add: nonneg_fl)
  then show ?thesis
    using assms(1) by (cases "fl (of_int i)") (auto simp: float_of_int_def)
qed

lemma int_truediv_nonneg:
  assumes "int_truediv a b = Inr x" "0 \<le> a" "0 < b"
  shows "nonneg x"
proof -
  have "nonneg (fl (of_int a / of_int b))"
    using assms(2,3) by (simp add: nonneg_fl)
  then show ?thesis
    using assms(1,3) by (cases "fl (of_int a / of_int b)") (auto simp: int_truediv_def)
qed

lemma fpos_12 [simp]: "fpos (Finite 12)" "fpos (Finite 720)" "fpos (Finite 6)" "fpos (Finite 100)"
  by simp_all

lemma price_pos:
  "fpos CONTROL_TOWER_BASE" "fpos GUARDDUTY_BASE_PER_ACCOUNT"
  "fpos GUARDDUTY_CLOUDTRAIL_PER_100K_EVENTS" "fpos GUARDDUTY_DNS_PER_GB"
  "fpos CONFIG_ITEM_PRICE" "fpos CONFIG_RULE_EVALUATION_PRICE"
  "fpos TGW_ATTACHMENT_HOURLY" "fpos TGW_DATA_PROCESSING_PER_GB"
  "fpos CLOUDTRAIL_DATA_EVENTS_PER_100K" "fpos CLOUDTRAIL_INSIGHTS_PER_100K"
  "fpos CLOUDTRAIL_TYPICAL_MONTHLY" "fpos CLOUDWATCH_LOG_INGESTION_PER_GB"
  "fpos CLOUDWATCH_LOG_STORAGE_PER_GB_MONTH" "fpos CLOUDWATCH_TYPICAL_PER_ACCOUNT"
  "fpos SECURITY_HUB_FINDING_INGESTION_PER_100K" "fpos SECURITY_HUB_COMPLIANCE_CHECKS_PER_100K"
  "fpos AWS_BACKUP_STORAGE_PER_GB_MONTH" "fpos AWS_BACKUP_CROSS_REGION_COPY_PER_GB"
  unfolding CONTROL_TOWER_BASE_def GUARDDUTY_BASE_PER_ACCOUNT_def
    GUARDDUTY_CLOUDTRAIL_PER_100K_EVENTS_def GUARDDUTY_DNS_PER_GB_def CONFIG_ITEM_PRICE_def
    CONFIG_RULE_EVALUATION_PRICE_def TGW_ATTACHMENT_HOURLY_def TGW_DATA_PROCESSING_PER_GB_def
    CLOUDTRAIL_DATA_EVENTS_PER_100K_def CLOUDTRAIL_INSIGHTS_PER_100K_def
    CLOUDTRAIL_TYPICAL_MONTHLY_def CLOUDWATCH_LOG_INGESTION_PER_GB_def
    CLOUDWATCH_LOG_STORAGE_PER_GB_MONTH_def CLOUDWATCH_TYPICAL_PER_ACCOUNT_def
    SECURITY_HUB_FINDING_INGESTION_PER_100K_def SECURITY_HUB_COMPLIANCE_CHECKS_PER_100K_def
    AWS_BACKUP_STORAGE_PER_GB_MONTH_def AWS_BACKUP_CROSS_REGION_COPY_PER_GB_def
  by (rule fpos_fl [where a = "- 10" and b = 10]; simp add: pow2_def)+

lemma ratio_pos:
  "fpos (fl (7 / 10))" "fpos (fl (3 / 10))" "fpos (fl (5 / 10))" "fpos (fl (1 / 10))"
  by (rule fpos_fl [where a = "- 10" and b = 10]; simp add: pow2_def)+

section \<open>What each calculator returns\<close>

lemma fpos_imp_nonneg: "fpos x \<Longrightarrow> nonneg x"
  by (cases x) (simp_all add: fpos_def)

lemma int_of_float_nonneg:
  assumes "int_of_float x = Inr i" "nonneg x"
  shows "0 \<le> i"
  using assms by (cases x) auto

lemma ratio_complement:
  assumes "0 \<le> r" "r \<le> 1"
  shows "fsub (Finite 1) (Finite r) = Finite (rne (1 - r))" "0 \<le> rne (1 - r)" "rne (1 - r) \<le> 1"
proof -
  have a: "0 \<le> 1 - r" "1 - r \<le> pow2 0"
    using assms by simp_all
  show "fsub (Finite 1) (Finite r) = Finite (rne (1 - r))"
    using fl_fin [OF a, simplified] by (simp add: fsub_def)
  show "0 \<le> rne (1 - r)"
    using a(1) by (rule rne_nonneg)
  show "rne (1 - r) \<le> 1"
    using rne_le_pow2 [OF a] by simp
qed

lemma guardduty_result:
  assumes "calculate_guardduty_costs p = Inr s"
  shows "\<exists>n ev d. float_of_int (accounts_count p) = Inr n \<and>
           int_truediv (expected_data_gb_monthly p * 100) 100000 = Inr ev \<and>
           float_of_int (expected_data_gb_monthly p) = Inr d \<and>
           monthly_cost s = fadd (fadd (fmul GUARDDUTY_BASE_PER_ACCOUNT n)
                                       (fmul ev GUARDDUTY_CLOUDTRAIL_PER_100K_EVENTS))
                                 (fmul d GUARDDUTY_DNS_PER_GB) \<and>
           annual_cost s = fmul (monthly_cost s) (Finite 12) \<and>
           optimization_potential s = fl (20 / 100)"
  using assms by (auto simp: calculate_guardduty_costs_def Let_def split: sum.splits)

lemma config_result:
  assumes "calculate_config_costs p = Inr s"
  shows "\<exists>items evals. float_of_int (500 * accounts_count p) = Inr items \<and>
           float_of_int (accounts_count p * 50 * 4 * 30) = Inr evals \<and>
           monthly_cost s = fadd (fmul items CONFIG_ITEM_PRICE)
                                 (fmul evals CONFIG_RULE_EVALUATION_PRICE) \<and>
           annual_cost s = fmul (monthly_cost s) (Finite 12) \<and>
           optimization_potential s = fl (25 / 100)"
  using assms by (auto simp: calculate_config_costs_def Let_def split: sum.splits)

lemma transit_gateway_result:
  assumes "calculate_transit_gateway_costs p = Inr s"
  shows "\<exists>att d. float_of_int (accounts_count p * 2 * int (length (regions p))) = Inr att \<and>
           float_of_int (expected_data_gb_monthly p) = Inr d \<and>
           monthly_cost s = fadd (fmul (fmul att TGW_ATTACHMENT_HOURLY) (Finite 720))
                                 (fmul (fmul d (fl (7 / 10))) TGW_DATA_PROCESSING_PER_GB) \<and>
           annual_cost s = fmul (monthly_cost s) (Finite 12) \<and>
           optimization_potential s = fl (30 / 100)"
  using assms by (auto simp: calculate_transit_gateway_costs_def Let_def split: sum.splits)

lemma cloudtrail_result:
  assumes "calculate_cloudtrail_costs p = Inr s"
  shows "\<exists>ev. int_truediv (expected_data_gb_monthly p * 50) 100000 = Inr ev \<and>
           monthly_cost s = fadd (fadd CLOUDTRAIL_TYPICAL_MONTHLY
                                       (fmul ev CLOUDTRAIL_DATA_EVENTS_PER_100K))
                                 (fmul (fmul ev CLOUDTRAIL_INSIGHTS_PER_100K) (fl (1 / 10))) \<and>
           annual_cost s = fmul (monthly_cost s) (Finite 12) \<and>
           optimization_potential s = fl (15 / 100)"
  using assms by (auto simp: calculate_cloudtrail_costs_def Let_def split: sum.splits)

lemma cloudwatch_result:
  assumes "calculate_cloudwatch_costs p = Inr s"
  shows "\<exists>n d. float_of_int (accounts_count p) = Inr n \<and>
           float_of_int (expected_data_gb_monthly p) = Inr d \<and>
           monthly_cost s =
             fadd (fadd (fmul CLOUDWATCH_TYPICAL_PER_ACCOUNT n)
                        (fmul (fmul d (fl (3 / 10))) CLOUDWATCH_LOG_INGESTION_PER_GB))
                  (fmul (fmul (fmul d (fl (3 / 10))) (Finite 6)) CLOUDWATCH_LOG_STORAGE_PER_GB_MONTH) \<and>
           annual_cost s = fmul (monthly_cost s) (Finite 12) \<and>
           optimization_potential s = fl (40 / 100)"
  using assms by (auto simp: calculate_cloudwatch_costs_def Let_def split: sum.splits)

lemma security_hub_result:
  assumes "calculate_security_hub_costs p = Inr s"
  shows "\<exists>f c. int_truediv (accounts_count p * 10000) 100000 = Inr f \<and>
           int_truediv (accounts_count p * int (length (compliance_requirements p)) * 1000) 100000
             = Inr c \<and>
           monthly_cost s = fadd (fmul f SECURITY_HUB_FINDING_INGESTION_PER_100K)
                                 (fmul c SECURITY_HUB_COMPLIANCE_CHECKS_PER_100K) \<and>
           annual_cost s = fmul (monthly_cost s) (Finite 12) \<and>
           optimization_potential s = fl (10 / 100)"
  using assms by (auto simp: calculate_security_hub_costs_def Let_def split: sum.splits)

lemma backup_result:
  assumes "calculate_backup_costs p = Inr s"
  shows "\<exists>n prod_accounts st.
           float_of_int (accounts_count p) = Inr n \<and>
           int_of_float (fmul n (fsub (Finite 1) (development_accounts_ratio p))) = Inr prod_accounts \<and>
           float_of_int (prod_accounts * 100 + (accounts_count p - prod_accounts) * 30) = Inr st \<and>
           monthly_cost s = fadd (fmul st AWS_BACKUP_STORAGE_PER_GB_MONTH)
                                 (fmul (fmul st (fl (5 / 10))) AWS_BACKUP_CROSS_REGION_COPY_PER_GB) \<and>
           annual_cost s = fmul (monthly_cost s) (Finite 12) \<and>
           optimization_potential s = fl (25 / 100)"
  using assms by (auto simp: calculate_backup_costs_def Let_def split: sum.splits)

section \<open>Costs are never negative\<close>

lemma fl_Finite_D: "fl q = Finite r \<Longrightarrow> r = rne q"
  by (auto simp: fl_def Let_def split: if_splits)

lemma float_of_int_Inr:
  assumes "float_of_int i = Inr x"
  shows "x = Finite (rne (of_int i))"
  using assms fl_Finite_D [of "of_int i"]
  by (cases "fl (of_int i)") (auto simp: float_of_int_def)

lemma int_truediv_Inr:
  assumes "int_truediv a b = Inr x"
  shows "x = Finite (rne (of_int a / of_int b))"
  using assms fl_Finite_D [of "of_int a / of_int b"]
  by (cases "fl (of_int a / of_int b)") (auto simp: int_truediv_def split: if_splits)

lemma guardduty_nonneg:
  assumes "calculate_guardduty_costs p = Inr s" "0 \<le> accounts_count p"
    "0 \<le> expected_data_gb_monthly p"
  shows "nonneg (monthly_cost s)"
proof -
  obtain n ev d where r: "float_of_int (accounts_count p) = Inr n"
      "int_truediv (expected_data_gb_monthly p * 100) 100000 = Inr ev"
      "float_of_int (expected_data_gb_monthly p) = Inr d"
      "monthly_cost s = fadd (fadd (fmul GUARDDUTY_BASE_PER_ACCOUNT n)
                                       (fmul ev GUARDDUTY_CLOUDTRAIL_PER_100K_EVENTS))
                                 (fmul d GUARDDUTY_DNS_PER_GB)"
    using guardduty_result [OF assms(1)] by blast
  have "nonneg n" "nonneg ev" "nonneg d"
    using float_of_int_nonneg [OF r(1)] int_truediv_nonneg [OF r(2)]
      float_of_int_nonneg [OF r(3)] assms(2,3) by simp_all
  then show ?thesis
    unfolding r(4) by (intro nonneg_fadd nonneg_fmul_fpos nonneg_fmul_fpos' price_pos)
qed

lemma config_nonneg:
  assumes "calculate_config_costs p = Inr s" "0 \<le> accounts_count p"
  shows "nonneg (monthly_cost s)"
proof -
  obtain items evals where r: "float_of_int (500 * accounts_count p) = Inr items"
      "float_of_int (accounts_count p * 50 * 4 * 30) = Inr evals"
      "monthly_cost s = fadd (fmul items CONFIG_ITEM_PRICE)
                                 (fmul evals CONFIG_RULE_EVALUATION_PRICE)"
    using config_result [OF assms(1)] by blast
  have "nonneg items" "nonneg evals"
    using float_of_int_nonneg [OF r(1)] float_of_int_nonneg [OF r(2)] assms(2) by simp_all
  then show ?thesis
    unfolding r(3) by (intro nonneg_fadd nonneg_fmul_fpos price_pos)
qed

lemma transit_gateway_nonneg:
  assumes "calculate_transit_gateway_costs p = Inr s" "0 \<le> accounts_count p"
    "0 \<le> expected_data_gb_monthly p"
  shows "nonneg (monthly_cost s)"
proof -
  obtain att d where r: "float_of_int (accounts_count p * 2 * int (length (regions p))) = Inr att"
      "float_of_int (expected_data_gb_monthly p) = Inr d"
      "monthly_cost s = fadd (fmul (fmul att TGW_ATTACHMENT_HOURLY) (Finite 720))
                                 (fmul (fmul d (fl (7 / 10))) TGW_DATA_PROCESSING_PER_GB)"
    using transit_gateway_result [OF assms(1)] by blast
  have "nonneg att" "nonneg d"
    using float_of_int_nonneg [OF r(1)] float_of_int_nonneg [OF r(2)] assms(2,3) by simp_all
  then show ?thesis
    unfolding r(3) by (intro nonneg_fadd nonneg_fmul_fpos price_pos ratio_pos fpos_12)
qed

lemma cloudtrail_nonneg:
  assumes "calculate_cloudtrail_costs p = Inr s" "0 \<le> expected_data_gb_monthly p"
  shows "nonneg (monthly_cost s)"
proof -
  obtain ev where r: "int_truediv (expected_data_gb_monthly p * 50) 100000 = Inr ev"
      "monthly_cost s = fadd (fadd CLOUDTRAIL_TYPICAL_MONTHLY
                                       (fmul ev CLOUDTRAIL_DATA_EVENTS_PER_100K))
                                 (fmul (fmul ev CLOUDTRAIL_INSIGHTS_PER_100K) (fl (1 / 10)))"
    using cloudtrail_result [OF assms(1)] by blast
  have "nonneg ev"
    using int_truediv_nonneg [OF r(1)] assms(2) by simp
  then show ?thesis
    unfolding r(2)
    by (intro nonneg_fadd nonneg_fmul_fpos price_pos ratio_pos fpos_imp_nonneg [OF price_pos(11)])
qed

lemma cloudwatch_nonneg:
  assumes "calculate_cloudwatch_costs p = Inr s" "0 \<le> accounts_count p"
    "0 \<le> expected_data_gb_monthly p"
  shows "nonneg (monthly_cost s)"
proof -
  obtain n d where r: "float_of_int (accounts_count p) = Inr n"
      "float_of_int (expected_data_gb_monthly p) = Inr d"
      "monthly_cost s =
             fadd (fadd (fmul CLOUDWATCH_TYPICAL_PER_ACCOUNT n)
                        (fmul (fmul d (fl (3 / 10))) CLOUDWATCH_LOG_INGESTION_PER_GB))
                  (fmul (fmul (fmul d (fl (3 / 10))) (Finite 6)) CLOUDWATCH_LOG_STORAGE_PER_GB_MONTH)"
    using cloudwatch_result [OF assms(1)] by blast
  have "nonneg n" "nonneg d"
    using float_of_int_nonneg [OF r(1)] float_of_int_nonneg [OF r(2)] assms(2,3) by simp_all
  then show ?thesis
    unfolding r(3)
    by (intro nonneg_fadd nonneg_fmul_fpos nonneg_fmul_fpos' price_pos ratio_pos fpos_12)
qed

lemma security_hub_nonneg:
  assumes "calculate_security_hub_costs p = Inr s" "0 \<le> accounts_count p"
  shows "nonneg (monthly_cost s)"
proof -
  obtain f c where r: "int_truediv (accounts_count p * 10000) 100000 = Inr f"
      "int_truediv (accounts_count p * int (length (compliance_requirements p)) * 1000) 100000
             = Inr c"
      "monthly_cost s = fadd (fmul f SECURITY_HUB_FINDING_INGESTION_PER_100K)
                                 (fmul c SECURITY_HUB_COMPLIANCE_CHECKS_PER_100K)"
    using security_hub_result [OF assms(1)] by blast
  have "nonneg f" "nonneg c"
    using int_truediv_nonneg [OF r(1)] int_truediv_nonneg [OF r(2)] assms(2) by simp_all
  then show ?thesis
    unfolding r(3) by (intro nonneg_fadd nonneg_fmul_fpos price_pos)
qed

lemma backup_nonneg:
  assumes "calculate_backup_costs p = Inr s" "0 \<le> accounts_count p"
    "development_accounts_ratio p = Finite r" "0 \<le> r" "r \<le> 1"
  shows "nonneg (monthly_cost s)"
proof -
  obtain n prod_accounts st where r: "float_of_int (accounts_count p) = Inr n"
      "int_of_float (fmul n (fsub (Finite 1) (development_accounts_ratio p))) = Inr prod_accounts"
      "float_of_int (prod_accounts * 100 + (accounts_count p - prod_accounts) * 30) = Inr st"
      "monthly_cost s = fadd (fmul st AWS_BACKUP_STORAGE_PER_GB_MONTH)
                                 (fmul (fmul st (fl (5 / 10))) AWS_BACKUP_CROSS_REGION_COPY_PER_GB)"
    using backup_result [OF assms(1)] by blast
  have n: "nonneg n"
    using float_of_int_nonneg [OF r(1)] assms(2) by simp
  have "nonneg (fmul n (fsub (Finite 1) (development_accounts_ratio p)))"
    using n ratio_complement [OF assms(4,5)] float_of_int_Inr [OF r(1)]
    by (simp add: assms(3) nonneg_fl)
  then have "0 \<le> prod_accounts"
    using int_of_float_nonneg [OF r(2)] by simp
  then have "0 \<le> prod_accounts * 100 + (accounts_count p - prod_accounts) * 30"
    using assms(2) by simp
  then have "nonneg st"
    using float_of_int_nonneg [OF r(3)] by simp
  then show ?thesis
    unfolding r(4) by (intro nonneg_fadd nonneg_fmul_fpos price_pos ratio_pos)
qed

lemma fle_fadd_nonneg:
  assumes "rne c = c" "0 \<le> c" "fle (Finite c) acc" "nonneg y"
  shows "fle (Finite c) (fadd acc y)"
proof (cases acc)
  case (Finite s)
  then have cs: "c \<le> s" using assms(3) by simp
  show ?thesis
  proof (cases y)
    case (Finite v)
    then have v: "0 \<le> v" using assms(4) by simp
    have "c \<le> rne (s + v)"
      using rne_mono [of c "s + v"] assms(1,2) cs v by simp
    then show ?thesis
      using fl_nonneg_cases [of "s + v"] cs v assms(2) Finite \<open>acc = Finite s\<close> by auto
  qed (use assms Finite in simp_all)
qed (use assms in \<open>cases y; simp\<close>)+

lemma fle_foldl_fadd:
  assumes "rne c = c" "0 \<le> c" "\<forall>y\<in>set ys. nonneg y" "fle (Finite c) acc"
  shows "fle (Finite c) (foldl fadd acc ys)"
  using assms(3,4)
proof (induction ys arbitrary: acc)
  case Nil
  then show ?case by simp
next
  case (Cons y ys)
  then show ?case
    using fle_fadd_nonneg [OF assms(1,2), of acc y] by simp
qed

lemma py_sum_ge_head:
  assumes "fl c = Finite c" "0 \<le> c" "\<forall>y\<in>set ys. nonneg y"
  shows "fle (Finite c) (py_sum (Finite c # ys))"
proof -
  have "rne c = c"
    using fl_nonneg_cases [OF assms(2)] assms(1) by auto
  then show ?thesis
    using fle_foldl_fadd [of c ys "Finite c"] assms by (simp add: py_sum_def)
qed

section \<open>The totals are positive\<close>

lemma calculate_services_result:
  assumes "calculate_services p = Inr svcs"
  shows "\<exists>gd cf tg tr cw sh bk.
           calculate_guardduty_costs p = Inr gd \<and> calculate_config_costs p = Inr cf \<and>
           calculate_transit_gateway_costs p = Inr tg \<and> calculate_cloudtrail_costs p = Inr tr \<and>
           calculate_cloudwatch_costs p = Inr cw \<and> calculate_security_hub_costs p = Inr sh \<and>
           calculate_backup_costs p = Inr bk \<and>
           svcs = [calculate_control_tower_costs p, gd, cf, tg, tr, cw, sh, bk]"
  using assms by (auto simp: calculate_services_def Let_def split: sum.splits)

lemma control_tower_fields:
  "monthly_cost (calculate_control_tower_costs p) = CONTROL_TOWER_BASE"
  "annual_cost (calculate_control_tower_costs p) = fmul CONTROL_TOWER_BASE (Finite 12)"
  "optimization_potential (calculate_control_tower_costs p) = Finite 0"
  by (simp_all add: calculate_control_tower_costs_def Let_def)

lemma control_tower_base_value:
  obtains c where "CONTROL_TOWER_BASE = Finite c" "fl c = Finite c" "pow2 6 \<le> c" "c \<le> pow2 7"
proof -
  have q: "(0::rat) \<le> 8910 / 100" "(8910 / 100 :: rat) \<le> pow2 7" "pow2 6 \<le> (8910 / 100 :: rat)"
    by (simp_all add: pow2_def)
  have 1: "CONTROL_TOWER_BASE = Finite (rne (8910 / 100))"
    unfolding CONTROL_TOWER_BASE_def using fl_fin [OF q(1,2)] by simp
  have 2: "fl (rne (8910 / 100)) = Finite (rne (8910 / 100))"
    using fl_idem [OF q(1)] 1 by (simp add: CONTROL_TOWER_BASE_def)
  have 3: "pow2 6 \<le> rne (8910 / 100)"
    using rne_ge_pow2 [OF q(3)] by simp
  have 4: "rne (8910 / 100) \<le> pow2 7"
    using rne_le_pow2 [OF q(1,2)] by simp
  show thesis
    using that [OF 1 2 3 4] .
qed

lemma control_tower_annual_value:
  obtains a where "fmul CONTROL_TOWER_BASE (Finite 12) = Finite a" "fl a = Finite a" "pow2 6 \<le> a"
proof -
  obtain c where c: "CONTROL_TOWER_BASE = Finite c" "pow2 6 \<le> c" "c \<le> pow2 7"
    using control_tower_base_value by blast
  have c0: "0 \<le> c" using c(2) pow2_pos [of 6] by linarith
  have q: "0 \<le> c * 12" "pow2 6 \<le> c * 12"
    using c(2) c0 by simp_all
  have "c * 12 \<le> pow2 7 * pow2 4"
    using c(3) c0 by (intro mult_mono) (simp_all add: pow2_def)
  then have q11: "c * 12 \<le> pow2 11"
    by (simp add: pow2_add [symmetric])
  have 1: "fmul CONTROL_TOWER_BASE (Finite 12) = Finite (rne (c * 12))"
    using fl_fin [OF q(1) q11] by (simp add: c(1))
  have 2: "fl (rne (c * 12)) = Finite (rne (c * 12))"
    using fl_idem [OF q(1)] 1 by (simp add: c(1))
  have 3: "pow2 6 \<le> rne (c * 12)"
    using rne_ge_pow2 [OF q(2)] by simp
  show thesis
    using that [OF 1 2 3] .
qed

lemma fdiv_defined: "y \<noteq> Finite 0 \<Longrightarrow> \<exists>v. fdiv x y = Inr v"
  by (cases y; cases x) auto

lemma fle_pos_not_zero:
  assumes "fle (Finite c) x" "0 < c"
  shows "x \<noteq> Finite 0" "flt (Finite 0) x"
  using assms by (cases x; simp add: flt_def)+

lemma services_nonneg:
  assumes "valid_profile p" "calculate_services p = Inr svcs"
  shows "\<exists>ys. svcs = calculate_control_tower_costs p # ys \<and>
           (\<forall>s\<in>set ys. nonneg (monthly_cost s) \<and> annual_cost s = fmul (monthly_cost s) (Finite 12))"
proof -
  obtain r where r: "development_accounts_ratio p = Finite r" "0 \<le> r" "r \<le> 1"
    and n: "0 \<le> accounts_count p" and d: "0 \<le> expected_data_gb_monthly p"
    using assms(1) by (auto simp: valid_profile_def split: pyfloat.splits)
  obtain gd cf tg tr cw sh bk where c:
    "calculate_guardduty_costs p = Inr gd" "calculate_config_costs p = Inr cf"
    "calculate_transit_gateway_costs p = Inr tg" "calculate_cloudtrail_costs p = Inr tr"
    "calculate_cloudwatch_costs p = Inr cw" "calculate_security_hub_costs p = Inr sh"
    "calculate_backup_costs p = Inr bk"
    "svcs = [calculate_control_tower_costs p, gd, cf, tg, tr, cw, sh, bk]"
    using calculate_services_result [OF assms(2)] by blast
  have "nonneg (monthly_cost gd)" "nonneg (monthly_cost cf)" "nonneg (monthly_cost tg)"
    "nonneg (monthly_cost tr)" "nonneg (monthly_cost cw)" "nonneg (monthly_cost sh)"
    "nonneg (monthly_cost bk)"
    using guardduty_nonneg [OF c(1) n d] config_nonneg [OF c(2) n]
      transit_gateway_nonneg [OF c(3) n d] cloudtrail_nonneg [OF c(4) d]
      cloudwatch_nonneg [OF c(5) n d] security_hub_nonneg [OF c(6) n]
      backup_nonneg [OF c(7) n r] by simp_all
  moreover have "annual_cost gd = fmul (monthly_cost gd) (Finite 12)"
    "annual_cost cf = fmul (monthly_cost cf) (Finite 12)"
    "annual_cost tg = fmul (monthly_cost tg) (Finite 12)"
    "annual_cost tr = fmul (monthly_cost tr) (Finite 12)"
    "annual_cost cw = fmul (monthly_cost cw) (Finite 12)"
    "annual_cost sh = fmul (monthly_cost sh) (Finite 12)"
    "annual_cost bk = fmul (monthly_cost bk) (Finite 12)"
    using guardduty_result [OF c(1)] config_result [OF c(2)] transit_gateway_result [OF c(3)]
      cloudtrail_result [OF c(4)] cloudwatch_result [OF c(5)] security_hub_result [OF c(6)]
      backup_result [OF c(7)] by auto
  ultimately show ?thesis
    using c(8) by simp
qed

lemma totals_positive:
  assumes "valid_profile p" "calculate_services p = Inr svcs"
  shows "fle CONTROL_TOWER_BASE (total_monthly svcs) \<and> flt (Finite 0) (total_monthly svcs) \<and>
         total_annual svcs \<noteq> Finite 0 \<and>
         (\<forall>s\<in>set svcs. \<exists>v. fdiv (monthly_cost s) (total_monthly svcs) = Inr v) \<and>
         (\<exists>v. fdiv (fsub (total_annual svcs) (fmul (optimized_monthly svcs) (Finite 12)))
                    (total_annual svcs) = Inr v)"
proof -
  obtain ys where ys: "svcs = calculate_control_tower_costs p # ys"
    "\<forall>s\<in>set ys. nonneg (monthly_cost s) \<and> annual_cost s = fmul (monthly_cost s) (Finite 12)"
    using services_nonneg [OF assms] by blast
  obtain c where c: "CONTROL_TOWER_BASE = Finite c" "fl c = Finite c" "pow2 6 \<le> c"
    using control_tower_base_value by blast
  obtain a where a: "fmul CONTROL_TOWER_BASE (Finite 12) = Finite a" "fl a = Finite a" "pow2 6 \<le> a"
    using control_tower_annual_value by blast
  have c0: "0 < c" and a0: "0 < a"
    using c(3) a(3) pow2_pos [of 6] by linarith+
  have m: "fle (Finite c) (total_monthly svcs)"
    unfolding total_monthly_def ys(1)
    using py_sum_ge_head [OF c(2), of "map monthly_cost ys"] c0 ys(2)
    by (simp add: control_tower_fields c(1))
  have "\<forall>y\<in>set (map annual_cost ys). nonneg y"
    using ys(2) by (auto intro: nonneg_fmul_fpos)
  then have an: "fle (Finite a) (total_annual svcs)"
    unfolding total_annual_def ys(1)
    using py_sum_ge_head [OF a(2), of "map annual_cost ys"] a0
    by (simp add: control_tower_fields a(1))
  note mz = fle_pos_not_zero [OF m c0] and az = fle_pos_not_zero [OF an a0]
  show ?thesis
    using m mz az fdiv_defined by (simp add: c(1))
qed

section \<open>No exception inside the float range\<close>

lemma float_of_int_ok:
  assumes "0 \<le> i" "i \<le> 2 ^ 1000"
  shows "float_of_int i = Inr (Finite (rne (of_int i)))"
proof -
  have "(of_int i :: rat) \<le> of_int (2 ^ 1000)"
    using assms(2) by (simp only: of_int_le_iff)
  then have "(of_int i :: rat) \<le> pow2 1000"
    by (simp add: pow2_def)
  moreover have "(0::rat) \<le> of_int i"
    using assms(1) by simp
  ultimately have "fl (of_int i) = Finite (rne (of_int i))"
    by (intro fl_fin [where m = 1000]) simp_all
  then show ?thesis
    by (simp add: float_of_int_def)
qed

lemma int_truediv_ok:
  assumes "0 \<le> a" "a \<le> 2 ^ 1000" "1 \<le> b"
  shows "int_truediv a b = Inr (Finite (rne (of_int a / of_int b)))"
proof -
  have "(of_int a :: rat) \<le> of_int (2 ^ 1000)"
    using assms(2) by (simp only: of_int_le_iff)
  then have a: "(of_int a :: rat) \<le> pow2 1000"
    by (simp add: pow2_def)
  have a0: "(0::rat) \<le> of_int a"
    using assms(1) by simp
  have b1: "(1::rat) \<le> of_int b"
    using assms(3) by (simp add: of_int_le_iff [of 1 b, symmetric] del: of_int_le_iff)
  have "(of_int a :: rat) / of_int b \<le> of_int a / 1"
    using a0 b1 by (intro divide_left_mono) simp_all
  then have "(of_int a :: rat) / of_int b \<le> pow2 1000"
    using a by simp
  moreover have "(0::rat) \<le> of_int a / of_int b"
    using a0 b1 by simp
  ultimately have "fl (of_int a / of_int b) = Finite (rne (of_int a / of_int b))"
    by (intro fl_fin [where m = 1000]) simp_all
  then show ?thesis
    using assms(3) by (simp add: int_truediv_def)
qed

lemma scale_bound:
  assumes "0 \<le> x" "x \<le> 2 ^ 900" "0 \<le> k" "k \<le> 2 ^ 90"
  shows "0 \<le> x * k" "x * k \<le> (2::int) ^ 1000"
proof -
  show "0 \<le> x * k" using assms(1,3) by simp
  have "x * k \<le> 2 ^ 900 * 2 ^ 90"
    using assms by (intro mult_mono) simp_all
  also have "\<dots> = (2::int) ^ 990"
    by (simp add: power_add [symmetric])
  also have "\<dots> \<le> 2 ^ 1000"
    by (intro power_increasing) simp_all
  finally show "x * k \<le> 2 ^ 1000" .
qed

lemma in_rangeD:
  assumes "valid_profile p" "in_range p"
  shows "1 \<le> accounts_count p" "accounts_count p \<le> 2 ^ 900"
    "1 \<le> employees p" "employees p \<le> 2 ^ 900"
    "0 \<le> expected_data_gb_monthly p" "expected_data_gb_monthly p \<le> 2 ^ 900"
    "int (length (regions p)) \<le> 2 ^ 64" "int (length (compliance_requirements p)) \<le> 2 ^ 64"
  using assms by (simp_all add: valid_profile_def in_range_def)

lemma fmt_int_f0_comma_ok:
  "0 \<le> i \<Longrightarrow> i \<le> 2 ^ 1000 \<Longrightarrow> \<exists>s. fmt_int_f0_comma i = Inr s"
  by (simp add: fmt_int_f0_comma_def float_of_int_ok)

lemma fmt_int_f0_ok:
  "0 \<le> i \<Longrightarrow> i \<le> 2 ^ 1000 \<Longrightarrow> \<exists>s. fmt_int_f0 i = Inr s"
  by (simp add: fmt_int_f0_def float_of_int_ok)

lemma guardduty_ok:
  assumes "valid_profile p" "in_range p"
  shows "\<exists>s. calculate_guardduty_costs p = Inr s"
proof -
  note r = in_rangeD [OF assms]
  have n: "float_of_int (accounts_count p) = Inr (Finite (rne (of_int (accounts_count p))))"
    using scale_bound [of "accounts_count p" 1] r by (intro float_of_int_ok) simp_all
  have d: "float_of_int (expected_data_gb_monthly p)
             = Inr (Finite (rne (of_int (expected_data_gb_monthly p))))"
    using scale_bound [of "expected_data_gb_monthly p" 1] r by (intro float_of_int_ok) simp_all
  have b: "0 \<le> expected_data_gb_monthly p * 100" "expected_data_gb_monthly p * 100 \<le> 2 ^ 1000"
    using scale_bound [of "expected_data_gb_monthly p" 100] r by simp_all
  obtain str where str: "fmt_int_f0_comma (expected_data_gb_monthly p * 100) = Inr str"
    using fmt_int_f0_comma_ok [OF b] by blast
  show ?thesis
    unfolding calculate_guardduty_costs_def Let_def n d int_truediv_ok [OF b, of 100000, simplified] str
    by simp
qed


lemma config_ok:
  assumes "valid_profile p" "in_range p"
  shows "\<exists>s. calculate_config_costs p = Inr s"
proof -
  note r = in_rangeD [OF assms]
  have a: "0 \<le> 500 * accounts_count p" "500 * accounts_count p \<le> 2 ^ 1000"
    using scale_bound [of "accounts_count p" 500] r by (simp_all add: mult.commute)
  have b: "0 \<le> accounts_count p * 50 * 4 * 30" "accounts_count p * 50 * 4 * 30 \<le> 2 ^ 1000"
    using scale_bound [of "accounts_count p" 6000] r by simp_all
  show ?thesis
    unfolding calculate_config_costs_def Let_def float_of_int_ok [OF a] float_of_int_ok [OF b]
    by simp
qed

lemma transit_gateway_ok:
  assumes "valid_profile p" "in_range p"
  shows "\<exists>s. calculate_transit_gateway_costs p = Inr s"
proof -
  note r = in_rangeD [OF assms]
  have "2 * int (length (regions p)) \<le> 2 * 2 ^ 64"
    using r(7) by simp
  also have "\<dots> \<le> (2::int) ^ 90"
    by simp
  finally have k: "2 * int (length (regions p)) \<le> 2 ^ 90" .
  have a: "0 \<le> accounts_count p * 2 * int (length (regions p))"
    "accounts_count p * 2 * int (length (regions p)) \<le> 2 ^ 1000"
    using scale_bound [of "accounts_count p" "2 * int (length (regions p))"] r k
    by (simp_all add: mult.assoc)
  have d: "0 \<le> expected_data_gb_monthly p" "expected_data_gb_monthly p \<le> 2 ^ 1000"
    using scale_bound [of "expected_data_gb_monthly p" 1] r by simp_all
  show ?thesis
    unfolding calculate_transit_gateway_costs_def Let_def float_of_int_ok [OF a] float_of_int_ok [OF d]
    by simp
qed

lemma cloudtrail_ok:
  assumes "valid_profile p" "in_range p"
  shows "\<exists>s. calculate_cloudtrail_costs p = Inr s"
proof -
  note r = in_rangeD [OF assms]
  have b: "0 \<le> expected_data_gb_monthly p * 50" "expected_data_gb_monthly p * 50 \<le> 2 ^ 1000"
    using scale_bound [of "expected_data_gb_monthly p" 50] r by simp_all
  obtain str where str: "fmt_int_f0_comma (expected_data_gb_monthly p * 50) = Inr str"
    using fmt_int_f0_comma_ok [OF b] by blast
  show ?thesis
    unfolding calculate_cloudtrail_costs_def Let_def int_truediv_ok [OF b, of 100000, simplified] str
    by simp
qed

lemma cloudwatch_ok:
  assumes "valid_profile p" "in_range p"
  shows "\<exists>s. calculate_cloudwatch_costs p = Inr s"
proof -
  note r = in_rangeD [OF assms]
  have n: "0 \<le> accounts_count p" "accounts_count p \<le> 2 ^ 1000"
    using scale_bound [of "accounts_count p" 1] r by simp_all
  have d: "0 \<le> expected_data_gb_monthly p" "expected_data_gb_monthly p \<le> 2 ^ 1000"
    using scale_bound [of "expected_data_gb_monthly p" 1] r by simp_all
  show ?thesis
    unfolding calculate_cloudwatch_costs_def Let_def float_of_int_ok [OF n] float_of_int_ok [OF d]
    by simp
qed

lemma security_hub_ok:
  assumes "valid_profile p" "in_range p"
  shows "\<exists>s. calculate_security_hub_costs p = Inr s"
proof -
  note r = in_rangeD [OF assms]
  have a: "0 \<le> accounts_count p * 10000" "accounts_count p * 10000 \<le> 2 ^ 1000"
    using scale_bound [of "accounts_count p" 10000] r by simp_all
  have "int (length (compliance_requirements p)) * 1000 \<le> 2 ^ 64 * 2 ^ 10"
    using r(8) by (intro mult_mono) simp_all
  also have "\<dots> \<le> (2::int) ^ 90"
    by simp
  finally have k: "int (length (compliance_requirements p)) * 1000 \<le> 2 ^ 90" .
  have b: "0 \<le> accounts_count p * int (length (compliance_requirements p)) * 1000"
    "accounts_count p * int (length (compliance_requirements p)) * 1000 \<le> 2 ^ 1000"
    using scale_bound [of "accounts_count p" "int (length (compliance_requirements p)) * 1000"] r k
    by (simp_all add: mult.assoc)
  show ?thesis
    unfolding calculate_security_hub_costs_def Let_def
      int_truediv_ok [OF a, of 100000, simplified] int_truediv_ok [OF b, of 100000, simplified]
    by simp
qed

lemma backup_ok:
  assumes "valid_profile p" "in_range p"
  shows "\<exists>s. calculate_backup_costs p = Inr s"
proof -
  note r = in_rangeD [OF assms]
  obtain q where q: "development_accounts_ratio p = Finite q" "0 \<le> q" "q \<le> 1"
    using assms(1) by (auto simp: valid_profile_def split: pyfloat.splits)
  define n' where "n' = rne (of_int (accounts_count p))"
  define c where "c = rne (1 - q)"
  have n: "0 \<le> accounts_count p" "accounts_count p \<le> 2 ^ 1000"
    using scale_bound [of "accounts_count p" 1] r by simp_all
  have fn: "float_of_int (accounts_count p) = Inr (Finite n')"
    using float_of_int_ok [OF n] by (simp add: n'_def)
  have "(of_int (accounts_count p) :: rat) \<le> of_int (2 ^ 900)"
    using r(2) by (simp only: of_int_le_iff)
  then have "(of_int (accounts_count p) :: rat) \<le> pow2 900"
    by (simp add: pow2_def)
  then have n900: "n' \<le> pow2 900" and n0: "0 \<le> n'"
    using rne_le_pow2 [of "of_int (accounts_count p)" 900] rne_nonneg [of "of_int (accounts_count p)"] n(1)
    by (simp_all add: n'_def)
  have c: "fsub (Finite 1) (Finite q) = Finite c" "0 \<le> c" "c \<le> 1"
    using ratio_complement [OF q(2,3)] by (simp_all add: c_def)
  have "n' * c \<le> n' * 1"
    using n0 c(3) by (intro mult_left_mono) simp_all
  then have nc: "0 \<le> n' * c" "n' * c \<le> pow2 900"
    using n0 c(2) n900 by simp_all
  have fm: "fmul (Finite n') (Finite c) = Finite (rne (n' * c))"
    using fl_fin [OF nc] by simp
  define pr where "pr = \<lfloor>rne (n' * c)\<rfloor>"
  have "0 \<le> rne (n' * c)" "rne (n' * c) \<le> pow2 900"
    using rne_nonneg [OF nc(1)] rne_le_pow2 [OF nc] by simp_all
  then have "0 \<le> pr" "(of_int pr :: rat) \<le> of_int (2 ^ 900)"
    by (simp_all add: pr_def pow2_def)
  then have pr: "0 \<le> pr" "pr \<le> 2 ^ 900"
    by (simp_all only: of_int_le_iff)
  have ip: "int_of_float (Finite (rne (n' * c))) = Inr pr"
    using \<open>0 \<le> rne (n' * c)\<close> by (simp add: pr_def)
  have "pr * 100 + (accounts_count p - pr) * 30 = pr * 70 + accounts_count p * 30"
    by simp
  moreover have "pr * 70 \<le> 2 ^ 900 * 70" "accounts_count p * 30 \<le> 2 ^ 900 * 30"
    using pr(2) r(2) by simp_all
  moreover have "(2::int) ^ 900 * 70 + 2 ^ 900 * 30 \<le> 2 ^ 900 * 2 ^ 7"
    by simp
  moreover have "(2::int) ^ 900 * 2 ^ 7 \<le> 2 ^ 1000"
    by (simp add: power_add [symmetric])
  ultimately have st: "0 \<le> pr * 100 + (accounts_count p - pr) * 30"
    "pr * 100 + (accounts_count p - pr) * 30 \<le> 2 ^ 1000"
    using pr(1) r(1) by linarith+
  obtain str where str: "fmt_int_f0 (pr * 100 + (accounts_count p - pr) * 30) = Inr str"
    using fmt_int_f0_ok [OF st] by blast
  show ?thesis
    unfolding calculate_backup_costs_def Let_def fn sum.case q(1) c(1) fm ip
      float_of_int_ok [OF st] str
    by simp
qed

lemma services_ok:
  assumes "valid_profile p" "in_range p"
  shows "\<exists>svcs. calculate_services p = Inr svcs"
proof -
  obtain gd cf tg tr cw sh bk where
    "calculate_guardduty_costs p = Inr gd" "calculate_config_costs p = Inr cf"
    "calculate_transit_gateway_costs p = Inr tg" "calculate_cloudtrail_costs p = Inr tr"
    "calculate_cloudwatch_costs p = Inr cw" "calculate_security_hub_costs p = Inr sh"
    "calculate_backup_costs p = Inr bk"
    using guardduty_ok [OF assms] config_ok [OF assms] transit_gateway_ok [OF assms]
      cloudtrail_ok [OF assms] cloudwatch_ok [OF assms] security_hub_ok [OF assms]
      backup_ok [OF assms] by blast
  then show ?thesis
    by (simp add: calculate_services_def Let_def)
qed

lemma fdiv_int_ok:
  assumes "1 \<le> i" "i \<le> 2 ^ 1000"
  shows "\<exists>v. fdiv_int x i = Inr v"
proof -
  have i0: "0 \<le> i" using assms(1) by simp
  have "pow2 0 \<le> (of_int i :: rat)"
    using assms(1) by (simp add: of_int_le_iff [of 1 i, symmetric] del: of_int_le_iff)
  then have "pow2 0 \<le> rne (of_int i)"
    by (intro rne_ge_pow2) simp_all
  then have "Finite (rne (of_int i)) \<noteq> Finite 0"
    by simp
  then show ?thesis
    using fdiv_defined [of "Finite (rne (of_int i))" x]
    by (simp add: fdiv_int_def float_of_int_ok [OF i0 assms(2)])
qed

lemma map_err_ok:
  assumes "\<forall>x\<in>set xs. \<exists>y. f x = Inr y"
  shows "\<exists>ys. map_err f xs = Inr ys \<and> length ys = length xs"
  using assms
proof (induction xs)
  case Nil
  then show ?case by simp
next
  case (Cons x xs)
  then obtain y ys where "f x = Inr y" "map_err f xs = Inr ys" "length ys = length xs"
    by auto
  then show ?case by simp
qed

lemma service_entry_ok:
  assumes "fdiv (monthly_cost s) tm = Inr v"
  shows "\<exists>e. service_entry tm s = Inr e"
  using assms by (simp add: service_entry_def)

lemma report_ok:
  assumes "valid_profile p" "in_range p" "calculate_services p = Inr svcs"
  shows "\<exists>r. generate_cost_report p = Inr r \<and>
           length (services (cost_breakdown r)) = length svcs"
proof -
  note r = in_rangeD [OF assms(1,2)]
  note t = totals_positive [OF assms(1,3)]
  have e: "employees p \<le> 2 ^ 1000" and n: "accounts_count p \<le> 2 ^ 1000"
    using scale_bound [of "employees p" 1] scale_bound [of "accounts_count p" 1] r by simp_all
  have "\<forall>s\<in>set svcs. \<exists>e. service_entry (total_monthly svcs) s = Inr e"
    using t service_entry_ok by blast
  then obtain entries where en: "map_err (service_entry (total_monthly svcs)) svcs = Inr entries"
    "length entries = length svcs"
    using map_err_ok by blast
  obtain v1 v2 v3 v4 v5 where v:
    "fdiv_int (total_monthly svcs) (employees p) = Inr v1"
    "fdiv_int (total_annual svcs) (employees p) = Inr v2"
    "fdiv (fsub (total_annual svcs) (fmul (optimized_monthly svcs) (Finite 12)))
                    (total_annual svcs) = Inr v3"
    "fdiv_int (total_monthly svcs) (accounts_count p) = Inr v4"
    "fdiv_int (total_annual svcs) (accounts_count p) = Inr v5"
    using fdiv_int_ok [OF r(3) e] fdiv_int_ok [OF r(1) n] t by metis
  show ?thesis
    unfolding generate_cost_report_def Let_def assms(3) sum.case v en
    using en(2) by simp
qed

section \<open>The example profile and zero-valued terms\<close>

lemma example_ratio:
  obtains r where "fl (3 / 10) = Finite r" "0 \<le> r" "r \<le> 1" "is_float r"
proof -
  have q: "(0::rat) \<le> 3 / 10" "(3 / 10 :: rat) \<le> pow2 0"
    by simp_all
  have 1: "fl (3 / 10) = Finite (rne (3 / 10))"
    using fl_fin [OF q] by simp
  have 2: "0 \<le> rne (3 / 10)"
    using rne_nonneg [OF q(1)] .
  have 3: "rne (3 / 10) \<le> 1"
    using rne_le_pow2 [OF q] by simp
  have 4: "is_float (rne (3 / 10))"
    unfolding is_float_def using fl_idem [OF q(1) 1] .
  show thesis
    using that [OF 1 2 3 4] .
qed

lemma example_valid: "valid_profile example_profile" "in_range example_profile"
proof -
  obtain r where "fl (3 / 10) = Finite r" "0 \<le> r" "r \<le> 1" "is_float r"
    using example_ratio by blast
  then show "valid_profile example_profile"
    by (simp add: valid_profile_def example_profile_def)
  show "in_range example_profile"
    by (simp add: in_range_def example_profile_def)
qed

lemma fl_0 [simp]: "fl 0 = Finite 0"
  using fl_fin [of 0 0] by simp

lemma fadd_fl_0:
  assumes "0 \<le> q"
  shows "fadd (fl q) (Finite 0) = fl q"
proof (cases "fl q")
  case (Finite r)
  then have "fl r = Finite r"
    using fl_idem [OF assms] by simp
  then show ?thesis
    using Finite by simp
qed simp_all

lemma float_of_int_0 [simp]: "float_of_int 0 = Inr (Finite 0)"
  by (simp add: float_of_int_def)

lemma int_truediv_0 [simp]: "b \<noteq> 0 \<Longrightarrow> int_truediv 0 b = Inr (Finite 0)"
  by (simp add: int_truediv_def)

lemma fmul_0_fpos [simp]: "fpos c \<Longrightarrow> fmul (Finite 0) c = Finite 0"
  by (cases c) (simp_all add: fpos_def)

lemma float_of_int_huge: "float_of_int (2 ^ 1024) = Inl OverflowError"
proof -
  have "rne (pow2 1024) = pow2 1024"
    by (rule rne_pow2) simp
  then have "fl (pow2 1024) = PInf"
    by (simp add: fl_def)
  moreover have "(of_int (2 ^ 1024) :: rat) = pow2 1024"
    by (simp add: pow2_def)
  ultimately show ?thesis
    by (simp add: float_of_int_def del: of_int_power of_int_numeral)
qed

lemma fmul_fin_fl:
  assumes "fpos c" "x = Finite a" "0 \<le> a"
  shows "\<exists>q. 0 \<le> q \<and> fmul x c = fl q" "\<exists>q. 0 \<le> q \<and> fmul c x = fl q"
proof -
  obtain b where b: "c = Finite b" "0 < b"
    using fpos_E [OF assms(1)] by blast
  have "0 \<le> a * b" "0 \<le> b * a"
    using assms(3) b(2) by simp_all
  then show "\<exists>q. 0 \<le> q \<and> fmul x c = fl q" "\<exists>q. 0 \<le> q \<and> fmul c x = fl q"
    using assms(2) b(1) by auto
qed

lemma security_hub_no_frameworks:
  assumes "calculate_security_hub_costs p = Inr s" "compliance_requirements p = []"
    "0 \<le> accounts_count p"
  shows "\<exists>f. int_truediv (accounts_count p * 10000) 100000 = Inr f \<and>
           monthly_cost s = fmul f SECURITY_HUB_FINDING_INGESTION_PER_100K"
proof -
  obtain f c where r: "int_truediv (accounts_count p * 10000) 100000 = Inr f"
      "int_truediv (accounts_count p * int (length (compliance_requirements p)) * 1000) 100000
             = Inr c"
      "monthly_cost s = fadd (fmul f SECURITY_HUB_FINDING_INGESTION_PER_100K)
                                 (fmul c SECURITY_HUB_COMPLIANCE_CHECKS_PER_100K)"
    using security_hub_result [OF assms(1)] by blast
  have c: "c = Finite 0"
    using r(2) by (simp add: assms(2))
  have f: "f = Finite (rne (of_int (accounts_count p * 10000) / of_int 100000))"
    using int_truediv_Inr [OF r(1)] .
  have "0 \<le> rne (of_int (accounts_count p * 10000) / of_int 100000)"
    using assms(3) by (intro rne_nonneg) simp
  then obtain q where q: "0 \<le> q" "fmul f SECURITY_HUB_FINDING_INGESTION_PER_100K = fl q"
    using fmul_fin_fl(1) [OF price_pos(15) f] by blast
  have "monthly_cost s = fmul f SECURITY_HUB_FINDING_INGESTION_PER_100K"
    unfolding r(3) c using fadd_fl_0 [OF q(1)] price_pos(16) by (simp add: q(2))
  then show ?thesis
    using r(1) by blast
qed

lemma guardduty_no_data:
  assumes "calculate_guardduty_costs p = Inr s" "expected_data_gb_monthly p = 0"
    "0 \<le> accounts_count p"
  shows "\<exists>n. float_of_int (accounts_count p) = Inr n \<and>
           monthly_cost s = fmul GUARDDUTY_BASE_PER_ACCOUNT n"
proof -
  obtain n ev d where r: "float_of_int (accounts_count p) = Inr n"
      "int_truediv (expected_data_gb_monthly p * 100) 100000 = Inr ev"
      "float_of_int (expected_data_gb_monthly p) = Inr d"
      "monthly_cost s = fadd (fadd (fmul GUARDDUTY_BASE_PER_ACCOUNT n)
                                       (fmul ev GUARDDUTY_CLOUDTRAIL_PER_100K_EVENTS))
                                 (fmul d GUARDDUTY_DNS_PER_GB)"
    using guardduty_result [OF assms(1)] by blast
  have z: "ev = Finite 0" "d = Finite 0"
    using r(2,3) by (simp_all add: assms(2))
  have n: "n = Finite (rne (of_int (accounts_count p)))"
    using float_of_int_Inr [OF r(1)] .
  have "0 \<le> rne (of_int (accounts_count p))"
    using assms(3) by (intro rne_nonneg) simp
  then obtain q where q: "0 \<le> q" "fmul GUARDDUTY_BASE_PER_ACCOUNT n = fl q"
    using fmul_fin_fl(2) [OF price_pos(2) n] by blast
  have "monthly_cost s = fmul GUARDDUTY_BASE_PER_ACCOUNT n"
    unfolding r(4) z using fadd_fl_0 [OF q(1)] price_pos(3,4) by (simp add: q(2))
  then show ?thesis
    using r(1) by blast
qed

lemma cloudtrail_no_data:
  assumes "calculate_cloudtrail_costs p = Inr s" "expected_data_gb_monthly p = 0"
  shows "monthly_cost s = CLOUDTRAIL_TYPICAL_MONTHLY"
proof -
  obtain ev where r: "int_truediv (expected_data_gb_monthly p * 50) 100000 = Inr ev"
      "monthly_cost s = fadd (fadd CLOUDTRAIL_TYPICAL_MONTHLY
                                       (fmul ev CLOUDTRAIL_DATA_EVENTS_PER_100K))
                                 (fmul (fmul ev CLOUDTRAIL_INSIGHTS_PER_100K) (fl (1 / 10)))"
    using cloudtrail_result [OF assms(1)] by blast
  have z: "ev = Finite 0"
    using r(1) by (simp add: assms(2))
  have "fadd (fl (6750 / 100)) (Finite 0) = fl (6750 / 100)"
    by (rule fadd_fl_0) simp
  then show ?thesis
    unfolding r(2) z using price_pos(9,10) ratio_pos(4)
    by (simp add: CLOUDTRAIL_TYPICAL_MONTHLY_def)
qed

lemma cloudwatch_no_data:
  assumes "calculate_cloudwatch_costs p = Inr s" "expected_data_gb_monthly p = 0"
    "0 \<le> accounts_count p"
  shows "\<exists>n. float_of_int (accounts_count p) = Inr n \<and>
           monthly_cost s = fmul CLOUDWATCH_TYPICAL_PER_ACCOUNT n"
proof -
  obtain n d where r: "float_of_int (accounts_count p) = Inr n"
      "float_of_int (expected_data_gb_monthly p) = Inr d"
      "monthly_cost s =
             fadd (fadd (fmul CLOUDWATCH_TYPICAL_PER_ACCOUNT n)
                        (fmul (fmul d (fl (3 / 10))) CLOUDWATCH_LOG_INGESTION_PER_GB))
                  (fmul (fmul (fmul d (fl (3 / 10))) (Finite 6)) CLOUDWATCH_LOG_STORAGE_PER_GB_MONTH)"
    using cloudwatch_result [OF assms(1)] by blast
  have z: "d = Finite 0"
    using r(2) by (simp add: assms(2))
  have n: "n = Finite (rne (of_int (accounts_count p)))"
    using float_of_int_Inr [OF r(1)] .
  have "0 \<le> rne (of_int (accounts_count p))"
    using assms(3) by (intro rne_nonneg) simp
  then obtain q where q: "0 \<le> q" "fmul CLOUDWATCH_TYPICAL_PER_ACCOUNT n = fl q"
    using fmul_fin_fl(2) [OF price_pos(14) n] by blast
  have "monthly_cost s = fmul CLOUDWATCH_TYPICAL_PER_ACCOUNT n"
    unfolding r(3) z using fadd_fl_0 [OF q(1)] price_pos(12,13) ratio_pos(2)
    by (simp add: q(2))
  then show ?thesis
    using r(1) by blast
qed

lemma transit_gateway_no_data:
  assumes "calculate_transit_gateway_costs p = Inr s" "expected_data_gb_monthly p = 0"
    "0 \<le> accounts_count p"
  shows "\<exists>att. float_of_int (accounts_count p * 2 * int (length (regions p))) = Inr att \<and>
           monthly_cost s = fmul (fmul att TGW_ATTACHMENT_HOURLY) (Finite 720)"
proof -
  obtain att d where r: "float_of_int (accounts_count p * 2 * int (length (regions p))) = Inr att"
      "float_of_int (expected_data_gb_monthly p) = Inr d"
      "monthly_cost s = fadd (fmul (fmul att TGW_ATTACHMENT_HOURLY) (Finite 720))
                                 (fmul (fmul d (fl (7 / 10))) TGW_DATA_PROCESSING_PER_GB)"
    using transit_gateway_result [OF assms(1)] by blast
  have z: "d = Finite 0"
    using r(2) by (simp add: assms(2))
  have a: "att = Finite (rne (of_int (accounts_count p * 2 * int (length (regions p)))))"
    using float_of_int_Inr [OF r(1)] .
  have "0 \<le> rne (of_int (accounts_count p * 2 * int (length (regions p))))"
    using assms(3) by (intro rne_nonneg) simp
  then have "nonneg (fmul att TGW_ATTACHMENT_HOURLY)"
    using a by (intro nonneg_fmul_fpos price_pos) simp
  then have "fadd (fmul (fmul att TGW_ATTACHMENT_HOURLY) (Finite 720)) (Finite 0)
               = fmul (fmul att TGW_ATTACHMENT_HOURLY) (Finite 720)"
    using fadd_fl_0 by (cases "fmul att TGW_ATTACHMENT_HOURLY") (simp_all add: inf_of_sign_def)
  then have "monthly_cost s = fmul (fmul att TGW_ATTACHMENT_HOURLY) (Finite 720)"
    unfolding r(3) z using price_pos(8) ratio_pos(1) by simp
  then show ?thesis
    using r(1) by blast
qed

section \<open>Recommendation engine and risk analyzer\<close>

lemma report_uses_totals:
  assumes "generate_cost_report p = Inr r"
  shows "\<exists>svcs. calculate_services p = Inr svcs \<and>
           recommendations r = generate_recommendations p svcs (total_annual svcs) \<and>
           risk_analysis r = generate_risk_analysis p (total_monthly svcs)"
  using assms by (auto simp: generate_cost_report_def Let_def split: sum.splits)

text \<open>
  C6. The recommendation list contains the account-level budget-controls entry exactly
  when the profile has more than 20 accounts; when present it is the single entry with
  that title, with savings \<open>total_annual * 0.08\<close>, priority medium and effort high.
\<close>

theorem budget_rule_iff_more_than_20_accounts:
  "(list_ex budget_controls (generate_recommendations p svcs ta) \<longleftrightarrow> 20 < accounts_count p) \<and>
   filter budget_controls (generate_recommendations p svcs ta) =
     (if 20 < accounts_count p
      then [\<lparr>priority = ''medium'', category = ''governance'',
             title = ''Implement account-level budget controls'',
             description = ''Set up automated budget alerts and spending limits per account'',
             estimated_savings_annual = fmul ta (fl (8 / 100)),
             implementation_effort = ''high''\<rparr>]
      else [])"
  by (simp add: generate_recommendations_def budget_controls_def)

theorem budget_rule_boundary:
  "\<not> list_ex budget_controls
       (generate_recommendations (example_profile\<lparr>accounts_count := 20\<rparr>) [] (Finite 1000)) \<and>
   list_ex budget_controls
       (generate_recommendations (example_profile\<lparr>accounts_count := 21\<rparr>) [] (Finite 1000))"
  using budget_rule_iff_more_than_20_accounts [of "example_profile\<lparr>accounts_count := 20\<rparr>" "[]" "Finite 1000"]
        budget_rule_iff_more_than_20_accounts [of "example_profile\<lparr>accounts_count := 21\<rparr>" "[]" "Finite 1000"]
  by simp

text \<open>
  C7. Each of the three conditions (monthly cost above 2000, more than two regions,
  more than 50 accounts) contributes its risk factor exactly when it holds; the level
  is high for two or more factors, medium for one, low for none. With 60 accounts,
  three regions and a monthly total above 2000 the level is high and all three factors
  are listed.
\<close>

theorem risk_analysis_rules:
  "(high_monthly_spend \<in> set (risk_factors (generate_risk_analysis p monthly))
      \<longleftrightarrow> fgt_int monthly 2000) \<and>
   (multi_region_complexity \<in> set (risk_factors (generate_risk_analysis p monthly))
      \<longleftrightarrow> 2 < length (regions p)) \<and>
   (account_sprawl \<in> set (risk_factors (generate_risk_analysis p monthly))
      \<longleftrightarrow> 50 < accounts_count p) \<and>
   length (risk_factors (generate_risk_analysis p monthly)) = risk_count p monthly \<and>
   risk_level (generate_risk_analysis p monthly) =
     (if 2 \<le> risk_count p monthly then ''high''
      else if risk_count p monthly = 1 then ''medium'' else ''low'') \<and>
   (accounts_count p = 60 \<and> length (regions p) = 3 \<and> fgt_int monthly 2000 \<longrightarrow>
      generate_risk_analysis p monthly =
        \<lparr>risk_level = ''high'',
         risk_factors = [high_monthly_spend, multi_region_complexity, account_sprawl]\<rparr>)"
  by (simp add: generate_risk_analysis_def risk_count_def Let_def
        high_monthly_spend_def multi_region_complexity_def account_sprawl_def)

theorem risk_analysis_rules_witness:
  "accounts_count sprawl_profile = 60 \<and> length (regions sprawl_profile) = 3 \<and>
   fgt_int (Finite 13000) 2000 \<and>
   generate_risk_analysis sprawl_profile (Finite 13000) =
     \<lparr>risk_level = ''high'',
      risk_factors = [high_monthly_spend, multi_region_complexity, account_sprawl]\<rparr>"
  using risk_analysis_rules [of sprawl_profile "Finite 13000"]
  by (simp add: sprawl_profile_def)

text \<open>
  C10. The recommendation list has between two and four entries, and its first two
  entries are the Transit Gateway reserved-instances entry (savings
  \<open>total_annual * 0.15\<close>) and the CloudWatch log-retention entry (savings
  \<open>total_annual * 0.12\<close>), in this order, whatever the profile.
\<close>

theorem recommendations_shape:
  "2 \<le> length (generate_recommendations p svcs ta) \<and>
   length (generate_recommendations p svcs ta) \<le> 4 \<and>
   take 2 (generate_recommendations p svcs ta) =
     [\<lparr>priority = ''high'', category = ''cost_optimization'',
       title = ''Implement Transit Gateway Reserved Instances'',
       description = ''Purchase 1-year reserved instances for Transit Gateway attachments'',
       estimated_savings_annual = fmul ta (fl (15 / 100)),
       implementation_effort = ''low''\<rparr>,
      \<lparr>priority = ''high'', category = ''log_optimization'',
       title = ''Configure CloudWatch Logs retention policies'',
       description = ''Implement tiered retention: 30 days (debug), 90 days (info), 365 days (error)'',
       estimated_savings_annual = fmul ta (fl (12 / 100)),
       implementation_effort = ''medium''\<rparr>]"
  by (simp add: generate_recommendations_def)

end
